theory Spec2Isabelle
  imports Complex_Main
begin

section \<open>Two-group word cloud: text normaliser, scoring and colour buckets\<close>

text \<open>
  A shallow embedding of \<^verbatim>\<open>CloudModule.py\<close>.

  Conventions of the model.
  \<^item> A Python \<^verbatim>\<open>str\<close> is a \<^typ>\<open>string\<close>; each \<^typ>\<open>char\<close> is read as the code point of
    the same number, so the model covers the texts whose code points lie in
    \<^verbatim>\<open>U+0000 .. U+00FF\<close> (ASCII and Latin-1). On that range \<^verbatim>\<open>str.lower\<close> works character
    by character and never leaves the range.
  \<^item> A Python \<^verbatim>\<open>float\<close> is a \<^typ>\<open>rat\<close>: frequencies and scores are computed exactly.
  \<^item> Every \<^verbatim>\<open>raise\<close> is a value \<open>Inl e\<close> of the result type.
  \<^item> The renderer (\<^verbatim>\<open>WordCloud\<close>) is external: the model of the entry point ends where the
    renderer is called and returns what is handed to it, the combined text and the colouring
    function, together with the table of word scores. Output to the console is left out.

  The older copy of the module under \<^verbatim>\<open>.ipynb_checkpoints\<close> has the same validation, scoring
  and colouring code and no normaliser; the model follows \<^verbatim>\<open>CloudModule.py\<close>.
\<close>

subsection \<open>Character classes\<close>

definition code_point :: "char \<Rightarrow> nat" where
  "code_point c = of_char c"

text \<open>The class \<^verbatim>\<open>\w\<close> of a \<^verbatim>\<open>str\<close> pattern: alphanumeric characters and the underscore.\<close>

definition is_word_char :: "char \<Rightarrow> bool" where
  "is_word_char c =
     (let n = code_point c in
        (48 \<le> n \<and> n \<le> 57) \<or> (65 \<le> n \<and> n \<le> 90) \<or> n = 95 \<or> (97 \<le> n \<and> n \<le> 122)
        \<or> n = 170 \<or> n = 178 \<or> n = 179 \<or> n = 181 \<or> n = 185 \<or> n = 186
        \<or> (188 \<le> n \<and> n \<le> 190) \<or> (192 \<le> n \<and> n \<le> 214) \<or> (216 \<le> n \<and> n \<le> 246)
        \<or> 248 \<le> n)"

text \<open>The class \<^verbatim>\<open>[\w']\<close>.\<close>

definition is_tail_char :: "char \<Rightarrow> bool" where
  "is_tail_char c = (is_word_char c \<or> c = CHR 0x27)"

text \<open>The characters on which \<^verbatim>\<open>str.isdigit\<close> holds: the decimal digits and the superscripts
  one, two and three.\<close>

definition is_digit_char :: "char \<Rightarrow> bool" where
  "is_digit_char c =
     (let n = code_point c in (48 \<le> n \<and> n \<le> 57) \<or> n = 178 \<or> n = 179 \<or> n = 185)"

text \<open>\<^verbatim>\<open>str.lower\<close> on one character: the cased letters move up by 32.\<close>

definition lower_char :: "char \<Rightarrow> char" where
  "lower_char c =
     (let n = code_point c in
        if (65 \<le> n \<and> n \<le> 90) \<or> (192 \<le> n \<and> n \<le> 214) \<or> (216 \<le> n \<and> n \<le> 222)
        then char_of (n + 32) else c)"

definition lower :: "string \<Rightarrow> string" where
  "lower s = map lower_char s"

definition isdigit :: "string \<Rightarrow> bool" where
  "isdigit s = (s \<noteq> [] \<and> list_all is_digit_char s)"

definition endswith :: "string \<Rightarrow> string \<Rightarrow> bool" where
  "endswith s suffix =
     (length suffix \<le> length s \<and> drop (length s - length suffix) s = suffix)"

subsection \<open>The text normaliser\<close>

text \<open>
  \<^verbatim>\<open>re.findall(r"\w[\w']*", text)\<close>: the scan goes from left to right; a character that cannot
  start a match is skipped, a word character starts a match that takes every following
  character of \<^verbatim>\<open>[\w']\<close>, and the scan goes on behind the match.
\<close>

function findall :: "string \<Rightarrow> string list" where
  "findall [] = []"
| "findall (c # cs) =
     (if is_word_char c
      then (c # takeWhile is_tail_char cs) # findall (dropWhile is_tail_char cs)
      else findall cs)"
  by pat_completeness auto
termination
  by (relation "measure length") (auto simp: length_dropWhile_le less_Suc_eq_le)

text \<open>\<^verbatim>\<open>word[:-2] if word.lower().endswith("'s") else word\<close>\<close>

definition strip_possessive :: "string \<Rightarrow> string" where
  "strip_possessive word =
     (if endswith (lower word) [CHR 0x27, CHR ''s''] then take (length word - 2) word else word)"

text \<open>\<^verbatim>\<open>sep.join(words)\<close>\<close>

fun join :: "string \<Rightarrow> string list \<Rightarrow> string" where
  "join sep [] = []"
| "join sep [w] = w"
| "join sep (w # ws) = w @ sep @ join sep ws"

definition preprocess_text :: "string \<Rightarrow> string" where
  "preprocess_text text =
     (let words = findall text;
          words = map strip_possessive words;
          words = filter (\<lambda>word. \<not> isdigit word) words
      in lower (join '' '' words))"

subsection \<open>Errors\<close>

text \<open>
  The module raises \<^verbatim>\<open>Exception(message)\<close> in five places; each is a constructor here, named
  after its message. \<open>IndexError\<close> and \<open>ZeroDivisionError\<close> are the interpreter's own, raised by
  \<^verbatim>\<open>thresholds[-1]\<close> on an empty list and by a division by zero.
\<close>

datatype error =
    ThresholdsNotSorted
  | LastThresholdNotOne rat
  | LengthMismatch
  | NoScoreCreated string
  | InvalidScore
  | IndexError
  | ZeroDivisionError

subsection \<open>Validation of the thresholds and colours\<close>

text \<open>
  Lines 85 to 92 of \<^verbatim>\<open>generateTwoGroupWordCloud\<close>, in the order of the source:
  \<^verbatim>\<open>all(thresholds[i] <= thresholds[i+1] for i in range(len(thresholds) - 1))\<close>, then
  \<^verbatim>\<open>thresholds[-1] == 1\<close>, then the comparison of the lengths. \<^verbatim>\<open>range\<close> of a negative
  number is empty, as \<open>[0..<0 - 1]\<close> is.
\<close>

definition validate_input :: "rat list \<Rightarrow> string list \<Rightarrow> error + unit" where
  "validate_input thresholds colors =
     (if \<not> list_all (\<lambda>i. thresholds ! i \<le> thresholds ! (i + 1)) [0..<length thresholds - 1]
      then Inl ThresholdsNotSorted
      else if thresholds = [] then Inl IndexError
      else if \<not> last thresholds = 1 then Inl (LastThresholdNotOne (last thresholds))
      else if length thresholds \<noteq> length colors then Inl LengthMismatch
      else Inr ())"

subsection \<open>Frequencies and scores\<close>

text \<open>\<^verbatim>\<open>text.split(' ')\<close>: the text is cut at every single space, so the empty text gives one
  empty word. The result is never empty; the last case of the \<open>case\<close> is there for totality.\<close>

fun split_space :: "string \<Rightarrow> string list" where
  "split_space [] = [[]]"
| "split_space (c # cs) =
     (if c = CHR '' '' then [] # split_space cs
      else (case split_space cs of w # ws \<Rightarrow> (c # w) # ws | [] \<Rightarrow> [[c]]))"

text \<open>\<^verbatim>\<open>Counter(words)\<close>: the words that occur, each with its number of occurrences; a key that
  is absent reads as 0.\<close>

definition Counter :: "string list \<Rightarrow> (string \<rightharpoonup> nat)" where
  "Counter words = (\<lambda>w. if w \<in> set words then Some (count_list words w) else None)"

definition counter_get :: "(string \<rightharpoonup> nat) \<Rightarrow> string \<Rightarrow> nat" where
  "counter_get counter word = (case counter word of None \<Rightarrow> 0 | Some k \<Rightarrow> k)"

definition py_div :: "rat \<Rightarrow> rat \<Rightarrow> error + rat" where
  "py_div a b = (if b = 0 then Inl ZeroDivisionError else Inr (a / b))"

text \<open>
  \<^verbatim>\<open>{word: (counter[word] / len(words)) for word in counter}\<close>: the loop over the keys of
  the counter, \<open>freqs\<close> being the dictionary built so far and \<open>n\<close> the value of
  \<^verbatim>\<open>len(words)\<close>.
\<close>

fun normalize_by_size ::
  "(string \<rightharpoonup> nat) \<Rightarrow> nat \<Rightarrow> string list \<Rightarrow> (string \<rightharpoonup> rat) \<Rightarrow> error + (string \<rightharpoonup> rat)" where
  "normalize_by_size counter n [] freqs = Inr freqs"
| "normalize_by_size counter n (word # keys) freqs =
     (case py_div (of_nat (counter_get counter word)) (of_nat n) of
        Inl e \<Rightarrow> Inl e
      | Inr q \<Rightarrow> normalize_by_size counter n keys (freqs(word \<mapsto> q)))"

text \<open>A lookup in \<^verbatim>\<open>defaultdict(float, freqs)\<close>: 0.0 for a word without an entry.\<close>

definition defaultdict_get :: "(string \<rightharpoonup> rat) \<Rightarrow> string \<Rightarrow> rat" where
  "defaultdict_get freqs word = (case freqs word of None \<Rightarrow> 0 | Some v \<Rightarrow> v)"

text \<open>The loop of lines 114 to 117 over the words of the union, \<open>word_scores\<close> being the
  dictionary built so far.\<close>

fun score_words ::
  "(string \<rightharpoonup> rat) \<Rightarrow> (string \<rightharpoonup> rat) \<Rightarrow> string list \<Rightarrow> (string \<rightharpoonup> rat) \<Rightarrow> error + (string \<rightharpoonup> rat)" where
  "score_words counter_1 counter_2 [] word_scores = Inr word_scores"
| "score_words counter_1 counter_2 (word # words) word_scores =
     (let group_1_score = defaultdict_get counter_1 word;
          group_2_score = defaultdict_get counter_2 word
      in case py_div group_1_score (group_1_score + group_2_score) of
           Inl e \<Rightarrow> Inl e
         | Inr score \<Rightarrow> score_words counter_1 counter_2 words (word_scores(word \<mapsto> score)))"

text \<open>
  Lines 101 to 117: from the two lists of words to the table of scores. The keys of a counter
  and the elements of the set \<^verbatim>\<open>words\<close> are walked in the order of a duplicate-free list;
  the tables that result do not depend on that order.
\<close>

definition compute_word_scores :: "string list \<Rightarrow> string list \<Rightarrow> error + (string \<rightharpoonup> rat)" where
  "compute_word_scores group_1_words group_2_words =
     (case normalize_by_size (Counter group_1_words) (length group_1_words) (remdups group_1_words) Map.empty of
        Inl e \<Rightarrow> Inl e
      | Inr counter_1 \<Rightarrow>
     (case normalize_by_size (Counter group_2_words) (length group_2_words) (remdups group_2_words) Map.empty of
        Inl e \<Rightarrow> Inl e
      | Inr counter_2 \<Rightarrow>
          score_words counter_1 counter_2 (remdups (group_1_words @ group_2_words)) Map.empty))"

subsection \<open>Choosing a colour\<close>

text \<open>The loop \<^verbatim>\<open>for t, c in zip(thresholds, colors)\<close> of \<^verbatim>\<open>__choose_color__\<close> and the
  \<^verbatim>\<open>raise\<close> behind it.\<close>

fun first_bucket :: "rat \<Rightarrow> (rat \<times> string) list \<Rightarrow> error + string" where
  "first_bucket score [] = Inl InvalidScore"
| "first_bucket score ((t, c) # buckets) =
     (if score \<le> t then Inr c else first_bucket score buckets)"

text \<open>\<^verbatim>\<open>__create_choose_color_func__\<close>: the function it returns, \<^verbatim>\<open>__choose_color__\<close>, is the
  partial application to the three captured values.\<close>

definition create_choose_color_func ::
  "(string \<rightharpoonup> rat) \<Rightarrow> rat list \<Rightarrow> string list \<Rightarrow> string \<Rightarrow> error + string" where
  "create_choose_color_func word_scores thresholds colors word =
     (case word_scores word of
        None \<Rightarrow> Inl (NoScoreCreated word)
      | Some score \<Rightarrow> first_bucket score (zip thresholds colors))"

subsection \<open>The entry point\<close>

text \<open>What \<^verbatim>\<open>generateTwoGroupWordCloud\<close> hands to the renderer, the text to lay out and the
  colouring function, together with the table of scores the function reads.\<close>

record cloud =
  combined_text :: string
  word_scores :: "string \<rightharpoonup> rat"
  color_func :: "string \<Rightarrow> error + string"

definition generateTwoGroupWordCloud ::
  "string \<Rightarrow> string \<Rightarrow> rat list \<Rightarrow> string list \<Rightarrow> error + cloud" where
  "generateTwoGroupWordCloud group_1_text group_2_text thresholds colors =
     (case validate_input thresholds colors of
        Inl e \<Rightarrow> Inl e
      | Inr _ \<Rightarrow>
          (let group_1_text = preprocess_text group_1_text;
               group_2_text = preprocess_text group_2_text
           in case compute_word_scores (split_space group_1_text) (split_space group_2_text) of
                Inl e \<Rightarrow> Inl e
              | Inr scores \<Rightarrow>
                  Inr \<lparr> combined_text = group_1_text @ '' '' @ group_2_text,
                        word_scores = scores,
                        color_func = create_choose_color_func scores thresholds colors \<rparr>))"

definition DEFAULT_THRESHOLDS :: "rat list" where
  "DEFAULT_THRESHOLDS = [2 / 10, 4 / 10, 6 / 10, 8 / 10, 1]"

definition DEFAULT_COLORS :: "string list" where
  "DEFAULT_COLORS = [''#ff0000'', ''#ffa6a6'', ''grey'', ''#a6c5ff'', ''#0059ff'']"

text \<open>The score a run assigns to a word: none when the run raised or the word has no entry.\<close>

definition score_of :: "error + cloud \<Rightarrow> string \<Rightarrow> rat option" where
  "score_of run word = (case run of Inl e \<Rightarrow> None | Inr r \<Rightarrow> word_scores r word)"

subsection \<open>Auxiliary notion\<close>

text \<open>A string that the pattern \<^verbatim>\<open>\w[\w']*\<close> matches as a whole, in the character classes of
  the scan.\<close>

definition word_match :: "string \<Rightarrow> bool" where
  "word_match t = (case t of [] \<Rightarrow> False | c # cs \<Rightarrow> is_word_char c \<and> list_all is_tail_char cs)"

subsection \<open>The specification's notions\<close>

text \<open>
  The notions of the specification are stated on their own, by tables of characters and by
  plain list functions; nothing here refers to the definitions of the normaliser above.

  The word characters: digits, letters and the underscore, then the Latin-1 ones.
\<close>

definition word_characters :: string where
  "word_characters =
     ''0123456789'' @ ''ABCDEFGHIJKLMNOPQRSTUVWXYZ'' @ ''_'' @ ''abcdefghijklmnopqrstuvwxyz''
     @ [CHR 0xAA, CHR 0xB2, CHR 0xB3, CHR 0xB5, CHR 0xB9, CHR 0xBA, CHR 0xBC, CHR 0xBD, CHR
       0xBE, CHR 0xC0, CHR 0xC1, CHR 0xC2, CHR 0xC3, CHR 0xC4, CHR 0xC5, CHR 0xC6, CHR
       0xC7, CHR 0xC8, CHR 0xC9, CHR 0xCA, CHR 0xCB, CHR 0xCC, CHR 0xCD, CHR 0xCE, CHR
       0xCF, CHR 0xD0, CHR 0xD1, CHR 0xD2, CHR 0xD3, CHR 0xD4, CHR 0xD5, CHR 0xD6, CHR
       0xD8, CHR 0xD9, CHR 0xDA, CHR 0xDB, CHR 0xDC, CHR 0xDD, CHR 0xDE, CHR 0xDF, CHR
       0xE0, CHR 0xE1, CHR 0xE2, CHR 0xE3, CHR 0xE4, CHR 0xE5, CHR 0xE6, CHR 0xE7, CHR
       0xE8, CHR 0xE9, CHR 0xEA, CHR 0xEB, CHR 0xEC, CHR 0xED, CHR 0xEE, CHR 0xEF, CHR
       0xF0, CHR 0xF1, CHR 0xF2, CHR 0xF3, CHR 0xF4, CHR 0xF5, CHR 0xF6, CHR 0xF8, CHR
       0xF9, CHR 0xFA, CHR 0xFB, CHR 0xFC, CHR 0xFD, CHR 0xFE, CHR 0xFF]"

definition digit_characters :: string where
  "digit_characters = ''0123456789'' @ [CHR 0xB2, CHR 0xB3, CHR 0xB9]"

text \<open>The letters that have a lower case of their own, each paired with it.\<close>

definition letter_cases :: "(char \<times> char) list" where
  "letter_cases =
     zip ''ABCDEFGHIJKLMNOPQRSTUVWXYZ'' ''abcdefghijklmnopqrstuvwxyz''
     @ zip [CHR 0xC0, CHR 0xC1, CHR 0xC2, CHR 0xC3, CHR 0xC4, CHR 0xC5, CHR 0xC6, CHR 0xC7, CHR
           0xC8, CHR 0xC9, CHR 0xCA, CHR 0xCB, CHR 0xCC, CHR 0xCD, CHR 0xCE, CHR 0xCF, CHR
           0xD0, CHR 0xD1, CHR 0xD2, CHR 0xD3, CHR 0xD4, CHR 0xD5, CHR 0xD6, CHR 0xD8, CHR
           0xD9, CHR 0xDA, CHR 0xDB, CHR 0xDC, CHR 0xDD, CHR 0xDE]
           [CHR 0xE0, CHR 0xE1, CHR 0xE2, CHR 0xE3, CHR 0xE4, CHR 0xE5, CHR 0xE6, CHR 0xE7, CHR
           0xE8, CHR 0xE9, CHR 0xEA, CHR 0xEB, CHR 0xEC, CHR 0xED, CHR 0xEE, CHR 0xEF, CHR
           0xF0, CHR 0xF1, CHR 0xF2, CHR 0xF3, CHR 0xF4, CHR 0xF5, CHR 0xF6, CHR 0xF8, CHR
           0xF9, CHR 0xFA, CHR 0xFB, CHR 0xFC, CHR 0xFD, CHR 0xFE]"

definition word_character :: "char \<Rightarrow> bool" where
  "word_character c = (c \<in> set word_characters)"

definition token_character :: "char \<Rightarrow> bool" where
  "token_character c = (word_character c \<or> c = CHR 0x27)"

text \<open>A token: a word character followed by word characters and apostrophes.\<close>

definition pattern_match :: "string \<Rightarrow> bool" where
  "pattern_match t =
     (case t of [] \<Rightarrow> False | c # cs \<Rightarrow> word_character c \<and> list_all token_character cs)"

text \<open>
  The tokens that the pattern matches in a text, read from left to right: the text is a gap
  without word characters, then a token that cannot be extended, then the rest of the text
  with its own tokens.
\<close>

inductive regex_tokens :: "string \<Rightarrow> string list \<Rightarrow> bool" where
  no_more: "list_all (\<lambda>c. \<not> word_character c) gap \<Longrightarrow> regex_tokens gap []"
| next_token: "list_all (\<lambda>c. \<not> word_character c) gap \<Longrightarrow> pattern_match t \<Longrightarrow>
     rest = [] \<or> \<not> token_character (hd rest) \<Longrightarrow> regex_tokens rest ts \<Longrightarrow>
     regex_tokens (gap @ t @ rest) (t # ts)"

text \<open>A token without its trailing possessive, the \<open>s\<close> in either case.\<close>

definition drop_possessive :: "string \<Rightarrow> string" where
  "drop_possessive w =
     (case rev w of
        a # b # p \<Rightarrow> if b = CHR 0x27 \<and> (a = CHR ''s'' \<or> a = CHR ''S'') then rev p else w
      | _ \<Rightarrow> w)"

definition all_digits :: "string \<Rightarrow> bool" where
  "all_digits w = list_all (\<lambda>c. c \<in> set digit_characters) w"

text \<open>A string in lower case: every letter of the table replaced by its lower case.\<close>

definition lowercase :: "string \<Rightarrow> string" where
  "lowercase w = map (\<lambda>c. case map_of letter_cases c of None \<Rightarrow> c | Some l \<Rightarrow> l) w"

text \<open>The normalised tokens of the specification: possessive dropped, all-digit tokens
  discarded, lower case.\<close>

definition normalized_tokens :: "string list \<Rightarrow> string list" where
  "normalized_tokens ts = map lowercase (filter (\<lambda>w. \<not> all_digits w) (map drop_possessive ts))"

text \<open>Tokens joined by whitespace: the first token, then every further token behind one
  space.\<close>

fun spaced :: "string list \<Rightarrow> string" where
  "spaced [] = []"
| "spaced (w # ws) = w @ concat (map (\<lambda>v. CHR '' '' # v) ws)"

text \<open>The normalised frequency of the specification: the occurrences of a token in a group
  over the number of tokens of the group, 0 for a token that does not occur.\<close>

definition frequency :: "string list \<Rightarrow> string \<Rightarrow> rat" where
  "frequency words w = of_nat (count_list words w) / of_nat (length words)"

text \<open>The table of word scores of the specification: every token of the union of the two
  vocabularies with the share of the first group in the sum of its two frequencies.\<close>

definition score_table :: "string list \<Rightarrow> string list \<Rightarrow> (string \<rightharpoonup> rat)" where
  "score_table w1 w2 =
     (\<lambda>w. if w \<in> set w1 \<union> set w2
          then Some (frequency w1 w / (frequency w1 w + frequency w2 w)) else None)"

section \<open>Auxiliary facts\<close>

subsection \<open>Facts about the character classes\<close>

lemma code_point_char_of: "n < 256 \<Longrightarrow> code_point (char_of n) = n"
  by (simp add: code_point_def)

lemma code_point_lt: "code_point c < 256"
  unfolding code_point_def by (metis of_char_mod_256 mod_less_divisor zero_less_numeral)

lemma code_point_inj: "code_point a = code_point b \<longleftrightarrow> a = b"
  by (auto simp: code_point_def)

lemma code_point_lower: "code_point (lower_char c) =
   (let n = code_point c in
        if (65 \<le> n \<and> n \<le> 90) \<or> (192 \<le> n \<and> n \<le> 214) \<or> (216 \<le> n \<and> n \<le> 222)
        then n + 32 else n)"
  by (auto simp: lower_char_def Let_def code_point_char_of)

lemma is_word_char_lower [simp]: "is_word_char (lower_char c) = is_word_char c"
  unfolding is_word_char_def code_point_lower Let_def using code_point_lt[of c] by auto

lemma is_digit_char_lower [simp]: "is_digit_char (lower_char c) = is_digit_char c"
  unfolding is_digit_char_def code_point_lower Let_def by auto

lemma lower_char_idem [simp]: "lower_char (lower_char c) = lower_char c"
  unfolding code_point_inj[symmetric] code_point_lower Let_def by auto

lemma cp_apos: "code_point (CHR 0x27) = 39" by (simp add: code_point_def)

lemma cp_space: "code_point (CHR '' '') = 32" by (simp add: code_point_def)

lemma cp_s: "code_point (CHR ''s'') = 115" by (simp add: code_point_def)

lemma cp_S: "code_point (CHR ''S'') = 83" by (simp add: code_point_def)

lemma lower_char_apos [simp]: "lower_char c = CHR 0x27 \<longleftrightarrow> c = CHR 0x27"
  unfolding code_point_inj[symmetric] code_point_lower Let_def cp_apos by auto

lemma lower_char_space [simp]: "lower_char c = CHR '' '' \<longleftrightarrow> c = CHR '' ''"
  unfolding code_point_inj[symmetric] code_point_lower Let_def cp_space by auto

lemma lower_char_s: "lower_char c = CHR ''s'' \<longleftrightarrow> c = CHR ''s'' \<or> c = CHR ''S''"
  unfolding code_point_inj[symmetric] code_point_lower Let_def cp_s cp_S by auto

lemma is_tail_char_lower [simp]: "is_tail_char (lower_char c) = is_tail_char c"
  by (simp add: is_tail_char_def)

lemma not_tail_space [simp]: "\<not> is_tail_char (CHR '' '')"
  by (simp add: is_tail_char_def is_word_char_def cp_space)

lemma not_word_space [simp]: "\<not> is_word_char (CHR '' '')"
  by (simp add: is_word_char_def cp_space)

lemma not_word_apos [simp]: "\<not> is_word_char (CHR 0x27)"
  by (simp add: is_word_char_def cp_apos)

lemma word_char_tail [simp]: "is_word_char c \<Longrightarrow> is_tail_char c"
  by (simp add: is_tail_char_def)

lemma not_digit_s [simp]: "\<not> is_digit_char (CHR ''s'')"
  by (simp add: is_digit_char_def cp_s)

lemma not_digit_apos [simp]: "\<not> is_digit_char (CHR 0x27)"
  by (simp add: is_digit_char_def cp_apos)

lemma lower_idem [simp]: "lower (lower s) = lower s"
  by (simp add: lower_def)

lemma lower_append [simp]: "lower (a @ b) = lower a @ lower b"
  by (simp add: lower_def)

lemma lower_Nil [simp]: "lower [] = []" by (simp add: lower_def)

lemma lower_Cons [simp]: "lower (c # s) = lower_char c # lower s" by (simp add: lower_def)

lemma lower_eq_Nil [simp]: "lower s = [] \<longleftrightarrow> s = []" by (simp add: lower_def)

lemma length_lower [simp]: "length (lower s) = length s" by (simp add: lower_def)

lemma isdigit_lower [simp]: "isdigit (lower s) = isdigit s"
  by (simp add: isdigit_def lower_def list_all_iff)

lemma lower_space [simp]: "lower '' '' = '' ''"
  by (simp add: lower_def)

lemma endswith_iff: "endswith s suffix \<longleftrightarrow> (\<exists>p. s = p @ suffix)"
proof
  assume "endswith s suffix"
  then have "s = take (length s - length suffix) s @ suffix"
    by (metis append_take_drop_id endswith_def)
  then show "\<exists>p. s = p @ suffix" ..
next
  assume "\<exists>p. s = p @ suffix"
  then show "endswith s suffix" by (auto simp: endswith_def)
qed

subsection \<open>Facts about the scan for tokens\<close>

lemma word_match_Cons [simp]: "word_match (c # cs) \<longleftrightarrow> is_word_char c \<and> list_all is_tail_char cs"
  by (simp add: word_match_def)

lemma word_match_Nil [simp]: "\<not> word_match []"
  by (simp add: word_match_def)

lemma word_match_lower [simp]: "word_match (lower t) = word_match t"
  by (cases t) (simp_all add: list_all_iff lower_def)

lemma findall_matches: "t \<in> set (findall s) \<Longrightarrow> word_match t"
proof (induction s rule: findall.induct)
  case 1
  then show ?case by simp
next
  case (2 c cs)
  then show ?case
    by (auto simp: list_all_iff dest: set_takeWhileD split: if_splits)
qed

lemma findall_skip: "list_all (\<lambda>c. \<not> is_word_char c) gap \<Longrightarrow> findall (gap @ s) = findall s"
  by (induction gap) auto

lemma findall_gap: "list_all (\<lambda>c. \<not> is_word_char c) gap \<Longrightarrow> findall gap = []"
  using findall_skip[of gap "[]"] by simp

lemma findall_match:
  assumes "word_match t" and "rest = [] \<or> \<not> is_tail_char (hd rest)"
  shows "findall (t @ rest) = t # findall rest"
proof -
  from assms(1) obtain c cs where t: "t = c # cs" and c: "is_word_char c" and cs: "list_all is_tail_char cs"
    by (cases t) auto
  have tw: "takeWhile is_tail_char (cs @ rest) = cs"
    using cs assms(2) by (cases rest) (auto simp: list_all_iff takeWhile_tail)
  have dw: "dropWhile is_tail_char (cs @ rest) = rest"
    using cs assms(2) by (cases rest) (auto simp: list_all_iff)
  show ?thesis using c by (simp add: t tw dw)
qed

lemma findall_join: "list_all word_match ts \<Longrightarrow> findall (join '' '' ts) = ts"
proof (induction ts)
  case Nil
  then show ?case by simp
next
  case (Cons w ws)
  show ?case
  proof (cases ws)
    case Nil
    then show ?thesis using Cons.prems findall_match[of w "[]"] by simp
  next
    case (Cons v va)
    have "findall (w @ ('' '' @ join '' '' ws)) = w # findall ('' '' @ join '' '' ws)"
      using Cons.prems by (intro findall_match) auto
    then show ?thesis using Cons Cons.IH Cons.prems by simp
  qed
qed

lemma lower_join: "lower (join sep ws) = join (lower sep) (map lower ws)"
  by (induction sep ws rule: join.induct) simp_all

lemma strip_possessive_match: "word_match t \<Longrightarrow> word_match (strip_possessive t)"
proof (cases "endswith (lower t) [CHR 0x27, CHR ''s'']")
  case False
  assume "word_match t" 
  with False show ?thesis by (simp add: strip_possessive_def)
next
  case True
  assume wm: "word_match t"
  then obtain c cs where t: "t = c # cs" and c: "is_word_char c" and cs: "list_all is_tail_char cs"
    by (cases t) auto
  from True obtain p where p: "lower t = p @ [CHR 0x27, CHR ''s'']"
    by (auto simp: endswith_iff)
  have "length t = length p + 2" using arg_cong[OF p, of length] by simp
  moreover have "p \<noteq> []" using p c t by (cases p) auto
  ultimately obtain n where n: "length cs = Suc (Suc n)" using t by (cases p) auto
  have "take (length t - 2) t = c # take (length cs - 2) cs"
    using n by (simp add: t)
  moreover have "list_all is_tail_char (take (length cs - 2) cs)"
    using cs by (auto simp: list_all_iff dest: in_set_takeD)
  ultimately show ?thesis using True c by (simp add: strip_possessive_def)
qed

lemma word_character_eq: "word_character c = is_word_char c"
proof (cases c)
  case (Char b0 b1 b2 b3 b4 b5 b6 b7)
  show ?thesis unfolding Char
    by (cases b0; cases b1; cases b2; cases b3; cases b4; cases b5; cases b6; cases b7;
        simp add: word_character_def word_characters_def is_word_char_def code_point_def)
qed

lemma digit_character_eq: "(c \<in> set digit_characters) = is_digit_char c"
proof (cases c)
  case (Char b0 b1 b2 b3 b4 b5 b6 b7)
  show ?thesis unfolding Char
    by (cases b0; cases b1; cases b2; cases b3; cases b4; cases b5; cases b6; cases b7;
        simp add: digit_characters_def is_digit_char_def code_point_def)
qed

lemma lowercase_char_eq:
  "(case map_of letter_cases c of None \<Rightarrow> c | Some l \<Rightarrow> l) = lower_char c"
proof (cases c)
  case (Char b0 b1 b2 b3 b4 b5 b6 b7)
  show ?thesis unfolding Char code_point_inj[symmetric] code_point_lower
    by (cases b0; cases b1; cases b2; cases b3; cases b4; cases b5; cases b6; cases b7;
        simp add: letter_cases_def code_point_def)
qed

lemma lowercase_eq: "lowercase w = lower w"
  by (simp add: lowercase_def lower_def lowercase_char_eq)

lemma all_digits_eq: "w \<noteq> [] \<Longrightarrow> all_digits w = isdigit w"
  by (simp add: all_digits_def isdigit_def digit_character_eq)

lemma token_character_eq: "token_character c = is_tail_char c"
  by (simp add: token_character_def is_tail_char_def word_character_eq)

lemma pattern_match_eq: "pattern_match t = word_match t"
  by (cases t) (simp_all add: pattern_match_def word_match_def word_character_eq token_character_eq[abs_def])

lemma join_spaced: "join '' '' ts = spaced ts"
proof (induction ts)
  case Nil
  then show ?case by simp
next
  case (Cons w ws)
  then show ?case by (cases ws) simp_all
qed

lemma regex_tokens_sound: "regex_tokens s ts \<Longrightarrow> findall s = ts"
  by (induction rule: regex_tokens.induct)
     (simp_all add: findall_gap findall_skip findall_match
        word_character_eq token_character_eq pattern_match_eq)

lemma regex_tokens_skip:
  assumes "regex_tokens cs ts" and "\<not> is_word_char c"
  shows "regex_tokens (c # cs) ts"
  using assms
proof (cases rule: regex_tokens.cases)
  case no_more
  then show ?thesis using assms(2) regex_tokens.no_more[of "c # cs"]
    by (simp add: word_character_eq)
next
  case (next_token gap t rest ts')
  then show ?thesis
    using assms(2) regex_tokens.next_token[of "c # gap" t rest ts']
    by (simp add: word_character_eq)
qed

lemma regex_tokens_complete: "regex_tokens s (findall s)"
proof (induction s rule: findall.induct)
  case 1
  show ?case using regex_tokens.no_more[of "[]"] by simp
next
  case (2 c cs)
  show ?case
  proof (cases "is_word_char c")
    case True
    let ?t = "c # takeWhile is_tail_char cs" and ?rest = "dropWhile is_tail_char cs"
    have "pattern_match ?t"
      using True by (auto simp: pattern_match_eq list_all_iff dest: set_takeWhileD)
    moreover have "?rest = [] \<or> \<not> token_character (hd ?rest)"
      using hd_dropWhile[of is_tail_char cs] by (auto simp: token_character_eq)
    moreover have "regex_tokens ?rest (findall ?rest)" using "2.IH"(1)[OF True] .
    ultimately have "regex_tokens ([] @ ?t @ ?rest) (?t # findall ?rest)"
      by (intro regex_tokens.next_token) simp_all
    then show ?thesis using True by simp
  next
    case False
    then show ?thesis using "2.IH"(2)[OF False] regex_tokens_skip by simp
  qed
qed

lemma regex_tokens_iff: "regex_tokens text ts \<longleftrightarrow> ts = findall text"
  using regex_tokens_sound regex_tokens_complete by auto

lemma strip_possessive_eq_drop: "strip_possessive w = drop_possessive w"
proof (cases w rule: rev_cases)
  case Nil
  then show ?thesis by (simp add: strip_possessive_def drop_possessive_def endswith_def)
next
  case (snoc p a)
  note outer = snoc
  show ?thesis
  proof (cases p rule: rev_cases)
    case Nil
    then show ?thesis using outer
      by (simp add: strip_possessive_def drop_possessive_def endswith_def)
  next
    case (snoc q b)
    then have w: "w = q @ [b, a]" using outer by simp
    have "endswith (lower w) [CHR 0x27, CHR ''s''] \<longleftrightarrow> b = CHR 0x27 \<and> (a = CHR ''s'' \<or> a = CHR ''S'')"
      by (auto simp: w endswith_def lower_char_s)
    then show ?thesis by (simp add: strip_possessive_def drop_possessive_def w)
  qed
qed

lemma preprocess_text_tokens:
  "preprocess_text text = join '' '' (map lower (filter (\<lambda>w. \<not> isdigit w) (map strip_possessive (findall text))))"
  by (simp add: preprocess_text_def lower_join del: lower_Cons)

lemma kept_tokens_match:
  "u \<in> set (filter (\<lambda>w. \<not> isdigit w) (map strip_possessive (findall text))) \<Longrightarrow> word_match u"
  by (auto dest: findall_matches strip_possessive_match)

lemma normalized_tokens_findall:
  "normalized_tokens (findall text) = map lower (filter (\<lambda>w. \<not> isdigit w) (map strip_possessive (findall text)))"
proof -
  have "filter (\<lambda>w. \<not> all_digits w) (map strip_possessive (findall text))
      = filter (\<lambda>w. \<not> isdigit w) (map strip_possessive (findall text))"
  proof (rule filter_cong[OF refl])
    fix w assume "w \<in> set (map strip_possessive (findall text))"
    then have "word_match w" by (auto dest: findall_matches strip_possessive_match)
    then have "w \<noteq> []" by auto
    then show "(\<not> all_digits w) = (\<not> isdigit w)" by (simp add: all_digits_eq)
  qed
  moreover have "map drop_possessive (findall text) = map strip_possessive (findall text)"
    by (simp add: strip_possessive_eq_drop)
  moreover have "map lowercase = map lower"
    by (rule ext) (simp add: lowercase_eq)
  ultimately show ?thesis by (simp only: normalized_tokens_def)
qed

lemma kept_tokens_empty_iff:
  "preprocess_text s = [] \<longleftrightarrow>
     map lower (filter (\<lambda>w. \<not> isdigit w) (map strip_possessive (findall s))) = []"
proof -
  let ?L = "map lower (filter (\<lambda>w. \<not> isdigit w) (map strip_possessive (findall s)))"
  have eq: "preprocess_text s = join '' '' ?L" by (rule preprocess_text_tokens)
  show ?thesis
  proof (cases ?L)
    case Nil
    then show ?thesis using eq by simp
  next
    case (Cons w ws)
    then have "w \<in> set ?L" by simp
    then obtain u where u: "u \<in> set (filter (\<lambda>w. \<not> isdigit w) (map strip_possessive (findall s)))"
        and w: "w = lower u"
      by auto
    have "word_match u" using u by (rule kept_tokens_match)
    then have "word_match w" by (simp add: w)
    then have "w \<noteq> []" by auto
    then have "join '' '' (w # ws) \<noteq> []" by (cases ws) simp_all
    then show ?thesis using eq Cons by simp
  qed
qed

lemma strip_keeps_no_possessive:
  assumes "\<not> endswith (lower t) [CHR 0x27, CHR ''s'', CHR 0x27, CHR ''s'']"
  shows "\<not> endswith (lower (strip_possessive t)) [CHR 0x27, CHR ''s'']"
proof (cases "endswith (lower t) [CHR 0x27, CHR ''s'']")
  case False
  then show ?thesis by (simp add: strip_possessive_def)
next
  case True
  then obtain p where p: "lower t = p @ [CHR 0x27, CHR ''s'']" by (auto simp: endswith_iff)
  have len: "length t = length p + 2" using arg_cong[OF p, of length] by simp
  have "lower (take (length t - 2) t) = take (length t - 2) (lower t)"
    by (simp add: lower_def take_map)
  also have "\<dots> = p" by (simp add: p len)
  finally have sp: "lower (strip_possessive t) = p" using True by (simp add: strip_possessive_def)
  show ?thesis
  proof
    assume "endswith (lower (strip_possessive t)) [CHR 0x27, CHR ''s'']"
    then obtain q where "p = q @ [CHR 0x27, CHR ''s'']" by (auto simp: sp endswith_iff)
    then have "lower t = q @ [CHR 0x27, CHR ''s'', CHR 0x27, CHR ''s'']" by (simp add: p)
    then show False using assms by (auto simp: endswith_iff)
  qed
qed

lemma idempotent_if_single_possessive:
  assumes "\<forall>t \<in> set (findall text). \<not> endswith (lower t) [CHR 0x27, CHR ''s'', CHR 0x27, CHR ''s'']"
  shows "preprocess_text (preprocess_text text) = preprocess_text text"
proof -
  let ?U = "filter (\<lambda>w. \<not> isdigit w) (map strip_possessive (findall text))"
  have match: "list_all word_match (map lower ?U)"
    using kept_tokens_match by (auto simp: list_all_iff)
  have first: "preprocess_text text = join '' '' (map lower ?U)"
    by (rule preprocess_text_tokens)
  have again: "findall (preprocess_text text) = map lower ?U"
    unfolding first using match by (rule findall_join)
  have strip: "map strip_possessive (map lower ?U) = map lower ?U"
  proof (rule map_idI)
    fix u assume "u \<in> set (map lower ?U)"
    then obtain t where t: "t \<in> set (findall text)" and u: "u = lower (strip_possessive t)"
      by auto
    have "\<not> endswith (lower (strip_possessive t)) [CHR 0x27, CHR ''s'']"
      using assms t strip_keeps_no_possessive by blast
    then show "strip_possessive u = u" by (simp add: u strip_possessive_def)
  qed
  have keep: "filter (\<lambda>w. \<not> isdigit w) (map lower ?U) = map lower ?U"
    by (simp add: filter_map comp_def)
  have "preprocess_text (preprocess_text text)
      = join '' '' (map lower (filter (\<lambda>w. \<not> isdigit w) (map strip_possessive (map lower ?U))))"
    unfolding preprocess_text_tokens[of "preprocess_text text"] again ..
  also have "\<dots> = join '' '' (map lower (map lower ?U))" by (simp only: strip keep)
  also have "\<dots> = join '' '' (map lower ?U)" by (simp add: comp_def)
  finally show ?thesis using first by simp
qed

lemma filter_keeps_all: "length (filter P xs) = length xs \<Longrightarrow> \<forall>x\<in>set xs. P x"
proof -
  assume "length (filter P xs) = length xs"
  then have "length (filter (\<lambda>x. \<not> P x) xs) = 0"
    using sum_length_filter_compl[of P xs] by simp
  then show ?thesis by (simp add: filter_empty_conv)
qed

lemma strip_possessive_shorter:
  "endswith (lower w) [CHR 0x27, CHR ''s''] \<Longrightarrow> length (strip_possessive w) < length w"
  by (auto simp: strip_possessive_def endswith_def)

lemma twice_pass_tokens:
  "findall (preprocess_text (preprocess_text s)) =
     map lower (filter (\<lambda>w. \<not> isdigit w) (map strip_possessive (findall (preprocess_text s))))"
proof -
  have "list_all word_match
     (map lower (filter (\<lambda>w. \<not> isdigit w) (map strip_possessive (findall (preprocess_text s)))))"
    using kept_tokens_match by (auto simp: list_all_iff)
  then show ?thesis
    unfolding preprocess_text_tokens[of "preprocess_text s"] by (rule findall_join)
qed

lemma once_pass_tokens:
  "findall (preprocess_text s) =
     map lower (filter (\<lambda>w. \<not> isdigit w) (map strip_possessive (findall s)))"
proof -
  have "list_all word_match (map lower (filter (\<lambda>w. \<not> isdigit w) (map strip_possessive (findall s))))"
    using kept_tokens_match by (auto simp: list_all_iff)
  then show ?thesis
    unfolding preprocess_text_tokens[of s] by (rule findall_join)
qed

lemma idempotent_no_possessive_left:
  assumes "preprocess_text (preprocess_text s) = preprocess_text s"
      and "l \<in> set (findall (preprocess_text s))"
  shows "\<not> endswith (lower l) [CHR 0x27, CHR ''s'']"
proof
  assume e: "endswith (lower l) [CHR 0x27, CHR ''s'']"
  let ?L = "findall (preprocess_text s)"
  have eq: "map lower (filter (\<lambda>w. \<not> isdigit w) (map strip_possessive ?L)) = ?L"
    using twice_pass_tokens[of s] assms(1) by simp
  have "length (map lower (filter (\<lambda>w. \<not> isdigit w) (map strip_possessive ?L))) = length ?L"
    by (simp only: eq)
  then have "length (filter (\<lambda>w. \<not> isdigit w) (map strip_possessive ?L)) = length (map strip_possessive ?L)"
    by (simp only: length_map)
  then have "\<forall>w\<in>set (map strip_possessive ?L). \<not> isdigit w"
    by (rule filter_keeps_all)
  then have f: "filter (\<lambda>w. \<not> isdigit w) (map strip_possessive ?L) = map strip_possessive ?L"
    by (simp only: filter_id_conv)
  have "map (lower \<circ> strip_possessive) ?L = map id ?L"
    using eq[unfolded f] by (simp only: map_map list.map_id)
  then have "\<forall>x\<in>set ?L. (lower \<circ> strip_possessive) x = id x"
    by (simp only: map_eq_conv)
  then have "lower (strip_possessive l) = l"
    using assms(2) unfolding comp_def id_def by blast
  then have "length (lower (strip_possessive l)) = length l" by (simp only:)
  then have "length (strip_possessive l) = length l" by (simp only: length_lower)
  then show False using strip_possessive_shorter[OF e] by simp
qed

lemma double_possessive_survives:
  assumes "t \<in> set (findall s)"
      and "endswith (lower t) [CHR 0x27, CHR ''s'', CHR 0x27, CHR ''s'']"
  shows "lower (strip_possessive t) \<in> set (findall (preprocess_text s))"
    and "endswith (lower (strip_possessive t)) [CHR 0x27, CHR ''s'']"
proof -
  from assms(2) obtain q where q: "lower t = q @ [CHR 0x27, CHR ''s'', CHR 0x27, CHR ''s'']"
    by (auto simp: endswith_iff)
  then have "lower t = (q @ [CHR 0x27, CHR ''s'']) @ [CHR 0x27, CHR ''s'']" by simp
  then have e: "endswith (lower t) [CHR 0x27, CHR ''s'']" unfolding endswith_iff by blast
  have len: "length t = length q + 4" using arg_cong[OF q, of length] by simp
  have "lower (take (length t - 2) t) = take (length t - 2) (lower t)"
    by (simp add: lower_def take_map)
  also have "\<dots> = q @ [CHR 0x27, CHR ''s'']" by (simp add: q len)
  finally have u: "lower (strip_possessive t) = q @ [CHR 0x27, CHR ''s'']"
    using e by (simp add: strip_possessive_def)
  show "endswith (lower (strip_possessive t)) [CHR 0x27, CHR ''s'']"
    unfolding u endswith_iff by blast
  have "\<not> isdigit (lower (strip_possessive t))"
    unfolding u by (simp add: isdigit_def)
  then have "\<not> isdigit (strip_possessive t)" by simp
  then show "lower (strip_possessive t) \<in> set (findall (preprocess_text s))"
    using assms(1) by (simp add: once_pass_tokens)
qed

subsection \<open>Facts about the words of a normalised text\<close>

lemma split_space_nonempty [simp]: "split_space s \<noteq> []"
  by (induction s) (auto split: list.splits)

lemma length_split_space_pos: "0 < length (split_space s)"
  by simp

lemma split_space_no_space: "CHR '' '' \<notin> set t \<Longrightarrow> split_space t = [t]"
  by (induction t) auto

lemma split_space_cut: "CHR '' '' \<notin> set t \<Longrightarrow> split_space (t @ CHR '' '' # rest) = t # split_space rest"
  by (induction t) auto

lemma split_space_join:
  "ts \<noteq> [] \<Longrightarrow> \<forall>t\<in>set ts. CHR '' '' \<notin> set t \<Longrightarrow> split_space (join '' '' ts) = ts"
proof (induction ts)
  case Nil
  then show ?case by simp
next
  case (Cons w ws)
  show ?case
  proof (cases ws)
    case Nil
    then show ?thesis using Cons.prems by (simp add: split_space_no_space)
  next
    case (Cons v va)
    then show ?thesis using Cons.IH Cons.prems by (simp add: split_space_cut)
  qed
qed

lemma word_match_no_space: "word_match t \<Longrightarrow> CHR '' '' \<notin> set t"
  by (cases t) (auto simp: list_all_iff)

lemma split_space_preprocess:
  "split_space (preprocess_text s) =
     (if preprocess_text s = [] then [[]]
      else map lower (filter (\<lambda>w. \<not> isdigit w) (map strip_possessive (findall s))))"
proof (cases "preprocess_text s = []")
  case True
  then show ?thesis by simp
next
  case False
  let ?U = "map lower (filter (\<lambda>w. \<not> isdigit w) (map strip_possessive (findall s)))"
  have eq: "preprocess_text s = join '' '' ?U" by (rule preprocess_text_tokens)
  have ne: "?U \<noteq> []" using False eq by auto
  have "\<forall>t\<in>set ?U. word_match t" using kept_tokens_match by auto
  then have "\<forall>t\<in>set ?U. CHR '' '' \<notin> set t" using word_match_no_space by blast
  then have "split_space (join '' '' ?U) = ?U" using ne by (intro split_space_join)
  then show ?thesis using False eq by simp
qed

lemma empty_word_iff: "[] \<in> set (split_space (preprocess_text s)) \<longleftrightarrow> preprocess_text s = []"
proof (cases "preprocess_text s = []")
  case True
  then show ?thesis by simp
next
  case False
  have "\<forall>t\<in>set (split_space (preprocess_text s)). word_match t"
    using False kept_tokens_match by (auto simp: split_space_preprocess)
  then have "[] \<notin> set (split_space (preprocess_text s))" by auto
  then show ?thesis using False by simp
qed

subsection \<open>Facts about frequencies and scores\<close>

lemma normalize_by_size_eq:
  "0 < n \<Longrightarrow> normalize_by_size counter n keys freqs =
     Inr (\<lambda>w. if w \<in> set keys then Some (of_nat (counter_get counter w) / of_nat n) else freqs w)"
proof (induction keys arbitrary: freqs)
  case Nil
  then show ?case by simp
next
  case (Cons a keys)
  then show ?case by (auto simp: py_div_def fun_eq_iff)
qed

lemma normalize_by_size_words:
  "normalize_by_size (Counter ws) (length ws) (remdups ws) Map.empty =
     Inr (\<lambda>w. if w \<in> set ws then Some (frequency ws w) else None)"
proof (cases ws)
  case Nil
  then show ?thesis by simp
next
  case (Cons a as)
  then have "0 < length ws" by simp
  then show ?thesis
    by (simp add: normalize_by_size_eq fun_eq_iff Counter_def counter_get_def frequency_def)
qed

lemma frequency_nonneg: "0 \<le> frequency ws w"
  by (simp add: frequency_def)

lemma frequency_pos_iff: "0 < frequency ws w \<longleftrightarrow> w \<in> set ws"
proof
  assume "0 < frequency ws w"
  then have "count_list ws w \<noteq> 0" by (auto simp: frequency_def intro: ccontr)
  then show "w \<in> set ws" by (simp add: count_list_0_iff)
next
  assume "w \<in> set ws"
  then have "0 < count_list ws w" "0 < length ws"
    using count_list_0_iff[of ws w] by (auto simp: length_pos_if_in_set)
  then show "0 < frequency ws w" by (simp add: frequency_def)
qed

lemma frequency_zero_iff: "frequency ws w = 0 \<longleftrightarrow> w \<notin> set ws"
  using frequency_pos_iff[of ws w] frequency_nonneg[of ws w] by auto

lemma defaultdict_get_frequency:
  "defaultdict_get (\<lambda>w. if w \<in> set ws then Some (frequency ws w) else None) w = frequency ws w"
  using frequency_zero_iff[of ws w] by (simp add: defaultdict_get_def)

lemma score_words_eq:
  "\<forall>w\<in>set ws. defaultdict_get c1 w + defaultdict_get c2 w \<noteq> 0 \<Longrightarrow>
   score_words c1 c2 ws acc =
     Inr (\<lambda>w. if w \<in> set ws
              then Some (defaultdict_get c1 w / (defaultdict_get c1 w + defaultdict_get c2 w))
              else acc w)"
proof (induction ws arbitrary: acc)
  case Nil
  then show ?case by simp
next
  case (Cons a ws)
  then show ?case by (auto simp: py_div_def Let_def fun_eq_iff)
qed

lemma denominator_pos:
  "w \<in> set w1 \<union> set w2 \<Longrightarrow> 0 < frequency w1 w + frequency w2 w"
  using frequency_pos_iff[of w1 w] frequency_pos_iff[of w2 w]
        frequency_nonneg[of w1 w] frequency_nonneg[of w2 w] by auto

lemma compute_word_scores_eq: "compute_word_scores w1 w2 = Inr (score_table w1 w2)"
proof -
  let ?c1 = "\<lambda>w. if w \<in> set w1 then Some (frequency w1 w) else None"
  let ?c2 = "\<lambda>w. if w \<in> set w2 then Some (frequency w2 w) else None"
  have "\<forall>w\<in>set (remdups (w1 @ w2)). defaultdict_get ?c1 w + defaultdict_get ?c2 w \<noteq> 0"
  proof
    fix w assume "w \<in> set (remdups (w1 @ w2))"
    then have "w \<in> set w1 \<union> set w2" by simp
    then have "0 < frequency w1 w + frequency w2 w" by (rule denominator_pos)
    then have "frequency w1 w + frequency w2 w \<noteq> 0" by simp
    moreover have "defaultdict_get ?c1 w = frequency w1 w" "defaultdict_get ?c2 w = frequency w2 w"
      by (rule defaultdict_get_frequency)+
    ultimately show "defaultdict_get ?c1 w + defaultdict_get ?c2 w \<noteq> 0"
      by metis
  qed
  then have "score_words ?c1 ?c2 (remdups (w1 @ w2)) Map.empty =
     Inr (\<lambda>w. if w \<in> set (remdups (w1 @ w2))
              then Some (defaultdict_get ?c1 w / (defaultdict_get ?c1 w + defaultdict_get ?c2 w))
              else None)"
    by (rule score_words_eq)
  then show ?thesis
    by (simp add: compute_word_scores_def normalize_by_size_words defaultdict_get_frequency
          score_table_def cong: if_cong)
qed

lemma dom_score_table: "dom (score_table w1 w2) = set w1 \<union> set w2"
  by (auto simp: score_table_def dom_def)

lemma score_bounds:
  assumes "w \<in> set w1 \<union> set w2"
  defines "s \<equiv> frequency w1 w / (frequency w1 w + frequency w2 w)"
  shows "0 \<le> s" "s \<le> 1" "0 < s \<longleftrightarrow> w \<in> set w1" "s < 1 \<longleftrightarrow> w \<in> set w2"
proof -
  have d: "0 < frequency w1 w + frequency w2 w" using assms(1) by (rule denominator_pos)
  have a: "0 \<le> frequency w1 w" and b: "0 \<le> frequency w2 w" by (rule frequency_nonneg)+
  show "0 \<le> s" using a d by (simp add: s_def)
  show "s \<le> 1" using b d by (simp add: s_def)
  show "0 < s \<longleftrightarrow> w \<in> set w1" using d by (simp add: s_def zero_less_divide_iff frequency_pos_iff)
  have "s < 1 \<longleftrightarrow> 0 < frequency w2 w" using d by (simp add: s_def)
  then show "s < 1 \<longleftrightarrow> w \<in> set w2" by (simp add: frequency_pos_iff)
qed

lemma generate_eq:
  "validate_input thresholds colors = Inr () \<Longrightarrow>
   generateTwoGroupWordCloud g1 g2 thresholds colors =
     Inr \<lparr> combined_text = preprocess_text g1 @ '' '' @ preprocess_text g2,
           word_scores = score_table (split_space (preprocess_text g1)) (split_space (preprocess_text g2)),
           color_func = create_choose_color_func
              (score_table (split_space (preprocess_text g1)) (split_space (preprocess_text g2)))
              thresholds colors \<rparr>"
  by (simp add: generateTwoGroupWordCloud_def compute_word_scores_eq Let_def)

lemma generate_invalid:
  "validate_input thresholds colors = Inl e \<Longrightarrow>
   generateTwoGroupWordCloud g1 g2 thresholds colors = Inl e"
  by (simp add: generateTwoGroupWordCloud_def)

subsection \<open>Facts about validation and the choice of a colour\<close>

lemma sorted_check:
  "list_all (\<lambda>i. ts ! i \<le> ts ! (i + 1)) [0..<length ts - 1] \<longleftrightarrow> sorted ts"
proof -
  have "list_all (\<lambda>i. ts ! i \<le> ts ! (i + 1)) [0..<length ts - 1]
        \<longleftrightarrow> (\<forall>i. Suc i < length ts \<longrightarrow> ts ! i \<le> ts ! Suc i)"
    by (auto simp: list_all_iff less_diff_conv)
  then show ?thesis by (simp only: sorted_iff_nth_Suc)
qed

lemma validate_input_cases:
  "validate_input thresholds colors =
     (if \<not> sorted thresholds then Inl ThresholdsNotSorted
      else if thresholds = [] then Inl IndexError
      else if last thresholds \<noteq> 1 then Inl (LastThresholdNotOne (last thresholds))
      else if length thresholds \<noteq> length colors then Inl LengthMismatch
      else Inr ())"
  unfolding validate_input_def sorted_check by simp

lemma validate_input_iff:
  "validate_input thresholds colors = Inr () \<longleftrightarrow>
     sorted thresholds \<and> thresholds \<noteq> [] \<and> last thresholds = 1 \<and> length thresholds = length colors"
  unfolding validate_input_cases by simp

lemma first_bucket_found:
  "length ts = length cs \<Longrightarrow> i < length ts \<Longrightarrow> score \<le> ts ! i \<Longrightarrow> \<forall>j<i. ts ! j < score \<Longrightarrow>
   first_bucket score (zip ts cs) = Inr (cs ! i)"
proof (induction ts arbitrary: cs i)
  case Nil
  then show ?case by simp
next
  case (Cons t ts)
  then obtain c cs' where cs: "cs = c # cs'" by (cases cs) auto
  show ?case
  proof (cases i)
    case 0
    then show ?thesis using Cons.prems cs by simp
  next
    case (Suc k)
    then have "t < score" using Cons.prems(4) by auto
    moreover have "first_bucket score (zip ts cs') = Inr (cs' ! k)"
      using Cons.prems cs Suc by (intro Cons.IH) auto
    ultimately show ?thesis using cs Suc by simp
  qed
qed

lemma first_bucket_none:
  "\<forall>t\<in>set ts. t < score \<Longrightarrow> first_bucket score (zip ts cs) = Inl InvalidScore"
proof (induction ts arbitrary: cs)
  case Nil
  then show ?case by simp
next
  case (Cons t ts)
  then show ?case by (cases cs) auto
qed

lemma first_index:
  fixes score :: rat
  assumes "\<exists>t\<in>set ts. score \<le> t"
  shows "\<exists>i<length ts. score \<le> ts ! i \<and> (\<forall>j<i. ts ! j < score)"
proof -
  from assms obtain k where k: "k < length ts" "score \<le> ts ! k"
    by (auto simp: in_set_conv_nth)
  define i where "i = (LEAST n. n < length ts \<and> score \<le> ts ! n)"
  have i: "i < length ts \<and> score \<le> ts ! i"
    unfolding i_def using k by (intro LeastI[of "\<lambda>n. n < length ts \<and> score \<le> ts ! n" k]) simp
  have "\<forall>j<i. ts ! j < score"
  proof (intro allI impI)
    fix j assume j: "j < i"
    then have "\<not> (j < length ts \<and> score \<le> ts ! j)"
      unfolding i_def using not_less_Least by blast
    then show "ts ! j < score" using j i by auto
  qed
  then show ?thesis using i by blast
qed

lemma threshold_reaches_iff:
  fixes score :: rat
  assumes "sorted ts" "ts \<noteq> []" "last ts = 1"
  shows "(\<exists>t\<in>set ts. score \<le> t) \<longleftrightarrow> score \<le> 1"
proof
  assume "\<exists>t\<in>set ts. score \<le> t"
  then obtain t where t: "t \<in> set ts" "score \<le> t" by blast
  then obtain k where k: "k < length ts" "ts ! k = t" by (auto simp: in_set_conv_nth)
  have "ts ! k \<le> ts ! (length ts - 1)"
    using assms(1) k(1) by (intro sorted_nth_mono) auto
  then have "t \<le> 1" using k assms by (simp add: last_conv_nth)
  then show "score \<le> 1" using t by simp
next
  assume "score \<le> 1"
  then show "\<exists>t\<in>set ts. score \<le> t" using assms last_in_set[of ts] by auto
qed

lemma choose_color_entry:
  assumes "validate_input thresholds colors = Inr ()" and "scores word = Some score"
  shows "score \<le> 1 \<Longrightarrow> \<exists>i<length thresholds. score \<le> thresholds ! i \<and> (\<forall>j<i. thresholds ! j < score)
            \<and> create_choose_color_func scores thresholds colors word = Inr (colors ! i)"
    and "1 < score \<Longrightarrow> create_choose_color_func scores thresholds colors word = Inl InvalidScore"
proof -
  from assms(1) have v: "sorted thresholds" "thresholds \<noteq> []" "last thresholds = 1"
      "length thresholds = length colors"
    by (simp_all add: validate_input_iff)
  have f: "create_choose_color_func scores thresholds colors word = first_bucket score (zip thresholds colors)"
    using assms(2) by (simp add: create_choose_color_func_def)
  {
    assume "score \<le> 1"
    then have "\<exists>t\<in>set thresholds. score \<le> t" using v threshold_reaches_iff by blast
    then obtain i where i: "i < length thresholds" "score \<le> thresholds ! i" "\<forall>j<i. thresholds ! j < score"
      using first_index by blast
    then have "first_bucket score (zip thresholds colors) = Inr (colors ! i)"
      using v(4) by (intro first_bucket_found) auto
    then show "\<exists>i<length thresholds. score \<le> thresholds ! i \<and> (\<forall>j<i. thresholds ! j < score)
            \<and> create_choose_color_func scores thresholds colors word = Inr (colors ! i)"
      using i f by auto
  }
  {
    assume "1 < score"
    then have "\<not> (\<exists>t\<in>set thresholds. score \<le> t)" using v threshold_reaches_iff[of thresholds score] by auto
    then have "\<forall>t\<in>set thresholds. t < score" by auto
    then show "create_choose_color_func scores thresholds colors word = Inl InvalidScore"
      using f first_bucket_none by simp
  }
qed

lemma default_valid: "validate_input DEFAULT_THRESHOLDS DEFAULT_COLORS = Inr ()"
  by code_simp

lemma example_valid: "validate_input [1 / 2, 1] [''blue'', ''red''] = Inr ()"
  by code_simp

subsection \<open>Evaluations of the examples\<close>

lemma pre_hello: "split_space (preprocess_text ''hello'') = [''hello'']"
  by code_simp

lemma pre_world: "split_space (preprocess_text ''world'') = [''world'']"
  by code_simp

lemma hello_world_scores:
  "score_table [''hello''] [''world''] ''hello'' = Some 1"
  "score_table [''hello''] [''world''] ''world'' = Some 0"
  by (simp_all add: score_table_def frequency_def)

lemma pre_cat_dog: "split_space (preprocess_text ''cat dog'') = [''cat'', ''dog'']"
  by code_simp

lemma pre_cat: "split_space (preprocess_text ''cat'') = [''cat'']"
  by code_simp

lemma pre_cat_cat_dog: "split_space (preprocess_text ''cat cat dog'') = [''cat'', ''cat'', ''dog'']"
  by code_simp

lemma pre_42: "preprocess_text ''42'' = []"
  by code_simp

section \<open>The claims of the specification\<close>

text \<open>
  \<^bold>\<open>C1.\<close> Let the thresholds and colours pass validation, so that the thresholds are in
  ascending order. For a word without an entry in the table of scores the colouring function
  raises \<open>NoScoreCreated\<close>. For a word with an entry it returns the colour at the first index
  whose threshold is at least the score: every earlier threshold lies strictly below the
  score. Such an index exists exactly for the scores up to 1; on a table that holds a score
  above 1 the function raises \<open>InvalidScore\<close>. The tables that \<^verbatim>\<open>generateTwoGroupWordCloud\<close>
  builds hold no such score, so there the colour is returned for every word with an entry.
\<close>

theorem choose_color_first_threshold:
  assumes "validate_input thresholds colors = Inr ()"
  shows "sorted thresholds
   \<and> (scores word = None \<longrightarrow>
        create_choose_color_func scores thresholds colors word = Inl (NoScoreCreated word))
   \<and> (\<forall>score. scores word = Some score \<and> score \<le> 1 \<longrightarrow>
        (\<exists>i<length thresholds. score \<le> thresholds ! i \<and> (\<forall>j<i. thresholds ! j < score)
            \<and> create_choose_color_func scores thresholds colors word = Inr (colors ! i)))
   \<and> (\<forall>score. scores word = Some score \<and> 1 < score \<longrightarrow>
        create_choose_color_func scores thresholds colors word = Inl InvalidScore)
   \<and> (\<forall>g1 g2 r w score. generateTwoGroupWordCloud g1 g2 thresholds colors = Inr r
          \<and> word_scores r w = Some score \<longrightarrow>
        (\<exists>i<length thresholds. score \<le> thresholds ! i \<and> (\<forall>j<i. thresholds ! j < score)
            \<and> color_func r w = Inr (colors ! i)))"
proof (intro conjI allI impI)
  show "sorted thresholds" using assms by (simp add: validate_input_iff)
  show "scores word = None \<Longrightarrow>
        create_choose_color_func scores thresholds colors word = Inl (NoScoreCreated word)"
    by (simp add: create_choose_color_func_def)
next
  fix score assume "scores word = Some score \<and> score \<le> 1"
  then show "\<exists>i<length thresholds. score \<le> thresholds ! i \<and> (\<forall>j<i. thresholds ! j < score)
            \<and> create_choose_color_func scores thresholds colors word = Inr (colors ! i)"
    using choose_color_entry(1)[where scores = scores and word = word, OF assms] by blast
next
  fix score assume "scores word = Some score \<and> 1 < score"
  then show "create_choose_color_func scores thresholds colors word = Inl InvalidScore"
    using choose_color_entry(2)[where scores = scores and word = word, OF assms] by blast
next
  fix g1 g2 r w score
  assume a: "generateTwoGroupWordCloud g1 g2 thresholds colors = Inr r \<and> word_scores r w = Some score"
  let ?w1 = "split_space (preprocess_text g1)" and ?w2 = "split_space (preprocess_text g2)"
  have r: "word_scores r = score_table ?w1 ?w2"
          "color_func r = create_choose_color_func (score_table ?w1 ?w2) thresholds colors"
    using a generate_eq[OF assms, of g1 g2] by auto
  have s: "score_table ?w1 ?w2 w = Some score" using a r by simp
  then have "score \<le> 1" using score_bounds(2)[of w ?w1 ?w2]
    by (auto simp: score_table_def split: if_splits)
  then show "\<exists>i<length thresholds. score \<le> thresholds ! i \<and> (\<forall>j<i. thresholds ! j < score)
            \<and> color_func r w = Inr (colors ! i)"
    using choose_color_entry(1)[where scores = "score_table ?w1 ?w2" and word = w, OF assms s] r by simp
qed

theorem choose_color_first_threshold_witness:
  "validate_input [1 / 2, 1] [''blue'', ''red''] = Inr ()
   \<and> [''hello'' \<mapsto> 1 / 4] ''world'' = (None :: rat option)
   \<and> create_choose_color_func [''hello'' \<mapsto> 1 / 4] [1 / 2, 1] [''blue'', ''red''] ''world''
       = Inl (NoScoreCreated ''world'')
   \<and> [''hello'' \<mapsto> 1 / 4] ''hello'' = Some (1 / 4 :: rat) \<and> (1 / 4 :: rat) \<le> 1
   \<and> create_choose_color_func [''hello'' \<mapsto> 1 / 4] [1 / 2, 1] [''blue'', ''red''] ''hello''
       = Inr ''blue''
   \<and> [''hello'' \<mapsto> 2] ''hello'' = Some (2::rat) \<and> (1::rat) < 2
   \<and> create_choose_color_func [''hello'' \<mapsto> 2] [1 / 2, 1] [''blue'', ''red''] ''hello''
       = Inl InvalidScore"
proof -
  have n: "[''hello'' \<mapsto> 1 / 4] ''world'' = (None :: rat option)" by simp
  have q: "[''hello'' \<mapsto> 1 / 4] ''hello'' = Some (1 / 4 :: rat) \<and> (1 / 4 :: rat) \<le> 1" by simp
  have s: "[''hello'' \<mapsto> 2] ''hello'' = Some (2::rat) \<and> (1::rat) < 2" by simp
  note t1 = choose_color_first_threshold[OF example_valid, of "[''hello'' \<mapsto> 1 / 4]" "''world''"]
  note t2 = choose_color_first_threshold[OF example_valid, of "[''hello'' \<mapsto> 2]" "''hello''"]
  note t3 = choose_color_first_threshold[OF example_valid, of "[''hello'' \<mapsto> 1 / 4]" "''hello''"]
  have a: "create_choose_color_func [''hello'' \<mapsto> 1 / 4] [1 / 2, 1] [''blue'', ''red''] ''world''
       = Inl (NoScoreCreated ''world'')"
    using t1[THEN conjunct2, THEN conjunct1] n by (rule mp)
  have b: "create_choose_color_func [''hello'' \<mapsto> 2] [1 / 2, 1] [''blue'', ''red''] ''hello''
       = Inl InvalidScore"
    using t2[THEN conjunct2, THEN conjunct2, THEN conjunct2, THEN conjunct1, THEN spec, of 2] s
    by (rule mp)
  have "\<exists>i<length [1 / 2, 1::rat]. 1 / 4 \<le> [1 / 2, 1::rat] ! i \<and> (\<forall>j<i. [1 / 2, 1::rat] ! j < 1 / 4)
       \<and> create_choose_color_func [''hello'' \<mapsto> 1 / 4] [1 / 2, 1] [''blue'', ''red''] ''hello''
           = Inr ([''blue'', ''red''] ! i)"
    using t3[THEN conjunct2, THEN conjunct2, THEN conjunct1, THEN spec, of "1 / 4"] q
    by (rule mp)
  then obtain i where i: "\<forall>j<i. [1 / 2, 1::rat] ! j < 1 / 4"
      "create_choose_color_func [''hello'' \<mapsto> 1 / 4] [1 / 2, 1] [''blue'', ''red''] ''hello''
           = Inr ([''blue'', ''red''] ! i)"
    by blast
  have "i = 0"
  proof (rule ccontr)
    assume "i \<noteq> 0"
    then have "[1 / 2, 1::rat] ! 0 < 1 / 4" using i(1) by blast
    then show False by simp
  qed
  then have c: "create_choose_color_func [''hello'' \<mapsto> 1 / 4] [1 / 2, 1] [''blue'', ''red''] ''hello''
       = Inr ''blue''"
    using i(2) by simp
  show ?thesis using example_valid n q s a b c by simp
qed

text \<open>
  \<^bold>\<open>C2\<close>, as the code has it. For any two texts and valid thresholds validation and scoring raise nothing, the
  table of scores has an entry for exactly the tokens of the union of the two vocabularies,
  and the entry of a token is \<open>f1 / (f1 + f2)\<close> for its two normalised frequencies. The score
  lies in the closed interval from 0 to 1; it is above 0 exactly for the tokens of the first
  group and below 1 exactly for the tokens of the second, hence strictly inside the interval
  exactly for the tokens that both groups use.
\<close>

theorem scores_in_closed_unit_interval:
  assumes "validate_input thresholds colors = Inr ()"
  shows "\<exists>r. generateTwoGroupWordCloud group_1_text group_2_text thresholds colors = Inr r
     \<and> dom (word_scores r) = set (split_space (preprocess_text group_1_text))
                             \<union> set (split_space (preprocess_text group_2_text))
     \<and> (\<forall>w \<in> set (split_space (preprocess_text group_1_text))
               \<union> set (split_space (preprocess_text group_2_text)).
          \<exists>s. word_scores r w = Some s
             \<and> s = frequency (split_space (preprocess_text group_1_text)) w
                   / (frequency (split_space (preprocess_text group_1_text)) w
                      + frequency (split_space (preprocess_text group_2_text)) w)
             \<and> 0 \<le> s \<and> s \<le> 1
             \<and> (0 < s \<longleftrightarrow> w \<in> set (split_space (preprocess_text group_1_text)))
             \<and> (s < 1 \<longleftrightarrow> w \<in> set (split_space (preprocess_text group_2_text))))"
proof -
  let ?w1 = "split_space (preprocess_text group_1_text)"
  let ?w2 = "split_space (preprocess_text group_2_text)"
  obtain r where r: "generateTwoGroupWordCloud group_1_text group_2_text thresholds colors = Inr r"
      and ws: "word_scores r = score_table ?w1 ?w2"
    using generate_eq[OF assms, of group_1_text group_2_text] by simp
  have "\<exists>s. word_scores r w = Some s
             \<and> s = frequency ?w1 w / (frequency ?w1 w + frequency ?w2 w)
             \<and> 0 \<le> s \<and> s \<le> 1 \<and> (0 < s \<longleftrightarrow> w \<in> set ?w1) \<and> (s < 1 \<longleftrightarrow> w \<in> set ?w2)"
    if "w \<in> set ?w1 \<union> set ?w2" for w
  proof -
    have "word_scores r w = Some (frequency ?w1 w / (frequency ?w1 w + frequency ?w2 w))"
      using that by (simp only: ws score_table_def if_True)
    then show ?thesis using score_bounds[OF that] by blast
  qed
  then have "\<forall>w \<in> set ?w1 \<union> set ?w2. \<exists>s. word_scores r w = Some s
             \<and> s = frequency ?w1 w / (frequency ?w1 w + frequency ?w2 w)
             \<and> 0 \<le> s \<and> s \<le> 1 \<and> (0 < s \<longleftrightarrow> w \<in> set ?w1) \<and> (s < 1 \<longleftrightarrow> w \<in> set ?w2)"
    by (rule ballI)
  moreover have "dom (word_scores r) = set ?w1 \<union> set ?w2" by (simp only: ws dom_score_table)
  ultimately show ?thesis using r by (intro exI conjI)
qed

theorem scores_in_closed_unit_interval_witness:
  "validate_input DEFAULT_THRESHOLDS DEFAULT_COLORS = Inr ()
   \<and> ''cat'' \<in> set (split_space (preprocess_text ''cat dog'')) \<union> set (split_space (preprocess_text ''cat''))
   \<and> score_of (generateTwoGroupWordCloud ''cat dog'' ''cat'' DEFAULT_THRESHOLDS DEFAULT_COLORS) ''cat''
       = Some (1 / 3)"
proof -
  have m: "''cat'' \<in> set (split_space (preprocess_text ''cat dog'')) \<union> set (split_space (preprocess_text ''cat''))"
    by (simp add: pre_cat_dog pre_cat)
  obtain r where r: "generateTwoGroupWordCloud ''cat dog'' ''cat'' DEFAULT_THRESHOLDS DEFAULT_COLORS = Inr r"
    and b: "\<forall>w \<in> set (split_space (preprocess_text ''cat dog''))
               \<union> set (split_space (preprocess_text ''cat'')).
          \<exists>s. word_scores r w = Some s
             \<and> s = frequency (split_space (preprocess_text ''cat dog'')) w
                   / (frequency (split_space (preprocess_text ''cat dog'')) w
                      + frequency (split_space (preprocess_text ''cat'')) w)
             \<and> 0 \<le> s \<and> s \<le> 1
             \<and> (0 < s \<longleftrightarrow> w \<in> set (split_space (preprocess_text ''cat dog'')))
             \<and> (s < 1 \<longleftrightarrow> w \<in> set (split_space (preprocess_text ''cat'')))"
    using scores_in_closed_unit_interval[OF default_valid, of "''cat dog''" "''cat''"]
    by (elim exE conjE)
  obtain s where s: "word_scores r ''cat'' = Some s"
      "s = frequency (split_space (preprocess_text ''cat dog'')) ''cat''
                   / (frequency (split_space (preprocess_text ''cat dog'')) ''cat''
                      + frequency (split_space (preprocess_text ''cat'')) ''cat'')"
    using bspec[OF b m] by (elim exE conjE)
  have "frequency [''cat'', ''dog''] ''cat'' / (frequency [''cat'', ''dog''] ''cat'' + frequency [''cat''] ''cat'') = 1 / 3"
    by (simp add: frequency_def)
  then have "s = 1 / 3" using s(2) by (simp only: pre_cat_dog pre_cat)
  then show ?thesis using default_valid m r s(1) by (simp add: score_of_def)
qed

text \<open>
  \<^bold>\<open>C2\<close>, as stated, asks for a score strictly between 0 and 1 for every token. The texts
  \<^verbatim>\<open>"hello"\<close> and \<^verbatim>\<open>"world"\<close> are both non-empty, and their tokens are scored 1 and 0.
\<close>

theorem scores_reach_interval_ends:
  "score_of (generateTwoGroupWordCloud ''hello'' ''world'' [1 / 2, 1] [''blue'', ''red'']) ''hello'' = Some 1
   \<and> score_of (generateTwoGroupWordCloud ''hello'' ''world'' [1 / 2, 1] [''blue'', ''red'']) ''world'' = Some 0"
  by (simp add: generate_eq[OF example_valid] score_of_def pre_hello pre_world hello_world_scores)

text \<open>
  \<^bold>\<open>C3.\<close> Validation passes if and only if the thresholds are non-decreasing, the list has
  a last element and that element is 1, and there are as many thresholds as colours. In every
  other case validation raises, and \<^verbatim>\<open>generateTwoGroupWordCloud\<close> raises that same error
  whatever the two texts are: nothing is scored. The error is one of the three messages of the
  source, or the \<open>IndexError\<close> of \<^verbatim>\<open>thresholds[-1]\<close> when the list of thresholds is empty.
\<close>

theorem validation_passes_iff:
  "(validate_input thresholds colors = Inr () \<longleftrightarrow>
      sorted thresholds \<and> thresholds \<noteq> [] \<and> last thresholds = 1
      \<and> length thresholds = length colors)
   \<and> (validate_input thresholds colors \<noteq> Inr () \<longrightarrow>
        (\<exists>e. e \<in> {ThresholdsNotSorted, IndexError, LastThresholdNotOne (last thresholds), LengthMismatch}
           \<and> validate_input thresholds colors = Inl e
           \<and> generateTwoGroupWordCloud group_1_text group_2_text thresholds colors = Inl e))"
proof (intro conjI impI)
  show "validate_input thresholds colors = Inr () \<longleftrightarrow>
      sorted thresholds \<and> thresholds \<noteq> [] \<and> last thresholds = 1
      \<and> length thresholds = length colors"
    by (rule validate_input_iff)
next
  assume "validate_input thresholds colors \<noteq> Inr ()"
  then obtain e where e: "validate_input thresholds colors = Inl e"
    by (cases "validate_input thresholds colors") auto
  then have "e \<in> {ThresholdsNotSorted, IndexError, LastThresholdNotOne (last thresholds), LengthMismatch}"
    by (auto simp: validate_input_cases split: if_splits)
  then show "\<exists>e. e \<in> {ThresholdsNotSorted, IndexError, LastThresholdNotOne (last thresholds), LengthMismatch}
           \<and> validate_input thresholds colors = Inl e
           \<and> generateTwoGroupWordCloud group_1_text group_2_text thresholds colors = Inl e"
    using e generate_invalid by blast
qed

theorem validation_passes_iff_witness:
  "validate_input [1 / 2, 1] [''blue'', ''red''] = Inr ()
   \<and> generateTwoGroupWordCloud ''hello'' ''world'' [1, 1 / 2] [''blue'', ''red''] = Inl ThresholdsNotSorted
   \<and> generateTwoGroupWordCloud ''hello'' ''world'' [1 / 2, 1] [''blue''] = Inl LengthMismatch
   \<and> generateTwoGroupWordCloud ''hello'' ''world'' [] [] = Inl IndexError"
proof -
  have a: "validate_input [1 / 2, 1] [''blue'', ''red''] = Inr ()"
    using validation_passes_iff[of "[1 / 2, 1]" "[''blue'', ''red'']"] by simp
  have b: "validate_input [1, 1 / 2] [''blue'', ''red''] = Inl ThresholdsNotSorted"
     and c: "validate_input [1 / 2, 1] [''blue''] = Inl LengthMismatch"
     and d: "validate_input [] [] = Inl IndexError"
    by code_simp+
  have "validate_input [1, 1 / 2] [''blue'', ''red''] \<noteq> Inr ()" by (simp add: b)
  then obtain e1 where "validate_input [1, 1 / 2] [''blue'', ''red''] = Inl e1"
      "generateTwoGroupWordCloud ''hello'' ''world'' [1, 1 / 2] [''blue'', ''red''] = Inl e1"
    using validation_passes_iff[of "[1, 1 / 2]" "[''blue'', ''red'']" "''hello''" "''world''"] by blast
  then have b': "generateTwoGroupWordCloud ''hello'' ''world'' [1, 1 / 2] [''blue'', ''red''] = Inl ThresholdsNotSorted"
    by (simp add: b)
  have "validate_input [1 / 2, 1] [''blue''] \<noteq> Inr ()" by (simp add: c)
  then obtain e2 where "validate_input [1 / 2, 1] [''blue''] = Inl e2"
      "generateTwoGroupWordCloud ''hello'' ''world'' [1 / 2, 1] [''blue''] = Inl e2"
    using validation_passes_iff[of "[1 / 2, 1]" "[''blue'']" "''hello''" "''world''"] by blast
  then have c': "generateTwoGroupWordCloud ''hello'' ''world'' [1 / 2, 1] [''blue''] = Inl LengthMismatch"
    by (simp add: c)
  have "validate_input [] [] \<noteq> Inr ()" by (simp add: d)
  then obtain e3 where "validate_input [] [] = Inl e3"
      "generateTwoGroupWordCloud ''hello'' ''world'' [] [] = Inl e3"
    using validation_passes_iff[of "[]" "[]" "''hello''" "''world''"] by blast
  then have d': "generateTwoGroupWordCloud ''hello'' ''world'' [] [] = Inl IndexError"
    by (simp add: d)
  show ?thesis using a b' c' d' by simp
qed

text \<open>
  \<^bold>\<open>C4.\<close> On the texts \<^verbatim>\<open>"hello"\<close> and \<^verbatim>\<open>"world"\<close> with the thresholds 0.5 and 1 and the
  colours blue and red, validation and scoring raise nothing; \<^verbatim>\<open>hello\<close> is scored 1 and coloured red, \<^verbatim>\<open>world\<close>
  is scored 0 and coloured blue.
\<close>

theorem hello_world_example:
  "\<exists>r. generateTwoGroupWordCloud ''hello'' ''world'' [1 / 2, 1] [''blue'', ''red''] = Inr r
     \<and> word_scores r ''hello'' = Some 1 \<and> color_func r ''hello'' = Inr ''red''
     \<and> word_scores r ''world'' = Some 0 \<and> color_func r ''world'' = Inr ''blue''"
  by (simp add: generate_eq[OF example_valid] pre_hello pre_world hello_world_scores
        create_choose_color_func_def)

text \<open>
  \<^bold>\<open>C5\<close>, as the code has it. Normalising a normalised text changes nothing exactly when no
  token of the raw text ends in a doubled possessive, \<^verbatim>\<open>'s's\<close> in either case of the letter:
  one pass strips one possessive only.
\<close>

theorem preprocess_text_idempotent_iff:
  "preprocess_text (preprocess_text s) = preprocess_text s \<longleftrightarrow>
     (\<forall>t \<in> set (findall s). \<not> endswith (lower t) [CHR 0x27, CHR ''s'', CHR 0x27, CHR ''s''])"
proof
  assume i: "preprocess_text (preprocess_text s) = preprocess_text s"
  show "\<forall>t \<in> set (findall s). \<not> endswith (lower t) [CHR 0x27, CHR ''s'', CHR 0x27, CHR ''s'']"
  proof (intro ballI notI)
    fix t assume t: "t \<in> set (findall s)"
       and e: "endswith (lower t) [CHR 0x27, CHR ''s'', CHR 0x27, CHR ''s'']"
    have "\<not> endswith (lower (lower (strip_possessive t))) [CHR 0x27, CHR ''s'']"
      using idempotent_no_possessive_left[OF i double_possessive_survives(1)[OF t e]] .
    then show False using double_possessive_survives(2)[OF t e] by simp
  qed
next
  assume "\<forall>t \<in> set (findall s). \<not> endswith (lower t) [CHR 0x27, CHR ''s'', CHR 0x27, CHR ''s'']"
  then show "preprocess_text (preprocess_text s) = preprocess_text s"
    by (rule idempotent_if_single_possessive)
qed

theorem preprocess_text_idempotent_iff_witness:
  "list_all (\<lambda>t. \<not> endswith (lower t) [CHR 0x27, CHR ''s'', CHR 0x27, CHR ''s''])
     (findall ''The Dog's 42 bones'')
   \<and> preprocess_text ''The Dog's 42 bones'' = ''the dog bones''
   \<and> preprocess_text ''the dog bones'' = ''the dog bones''"
proof -
  have l: "list_all (\<lambda>t. \<not> endswith (lower t) [CHR 0x27, CHR ''s'', CHR 0x27, CHR ''s''])
     (findall ''The Dog's 42 bones'')"
    by code_simp
  then have h: "\<forall>t \<in> set (findall ''The Dog's 42 bones'').
      \<not> endswith (lower t) [CHR 0x27, CHR ''s'', CHR 0x27, CHR ''s'']"
    by (simp only: list_all_iff)
  have v: "preprocess_text ''The Dog's 42 bones'' = ''the dog bones''" by code_simp
  show ?thesis using preprocess_text_idempotent_iff[THEN iffD2, OF h] l v by simp
qed

text \<open>
  \<^bold>\<open>C5\<close>, as stated, holds for every input. The text \<^verbatim>\<open>dog's's\<close> normalises to \<^verbatim>\<open>dog's\<close>,
  which normalises to \<^verbatim>\<open>dog\<close>.
\<close>

theorem preprocess_text_not_idempotent:
  "preprocess_text ''dog's's'' = ''dog's'' \<and> preprocess_text ''dog's'' = ''dog''
   \<and> preprocess_text (preprocess_text ''dog's's'') \<noteq> preprocess_text ''dog's's''"
  by code_simp

text \<open>
  \<^bold>\<open>C6.\<close> Every text has a list of tokens matched by the pattern, and for that list the
  normaliser returns the normalised tokens joined by single spaces: each token without its
  trailing possessive, the tokens of digits only discarded, every letter in lower case.
  Cutting the result at its spaces gives the normalised tokens back (one empty word when
  there is none). The tokens, the lower case and the joining are those of the specification,
  stated without the normaliser's own functions. In particular \<^verbatim>\<open>dog's\<close> becomes \<^verbatim>\<open>dog\<close>,
  \<^verbatim>\<open>42 cats\<close> becomes \<^verbatim>\<open>cats\<close>, and \<^verbatim>\<open>The Dog's 42 bones\<close> becomes \<^verbatim>\<open>the dog bones\<close>.
\<close>

theorem preprocess_text_refines_spec:
  "(\<exists>ts. regex_tokens text ts)
   \<and> (\<forall>ts. regex_tokens text ts \<longrightarrow>
          preprocess_text text = spaced (normalized_tokens ts)
        \<and> split_space (preprocess_text text)
            = (if normalized_tokens ts = [] then [[]] else normalized_tokens ts))
   \<and> preprocess_text ''dog's'' = ''dog''
   \<and> preprocess_text ''42 cats'' = ''cats''
   \<and> preprocess_text ''The Dog's 42 bones'' = ''the dog bones''"
proof (intro conjI allI impI)
  show "\<exists>ts. regex_tokens text ts" using regex_tokens_complete by blast
  show "preprocess_text ''dog's'' = ''dog''" by code_simp
  show "preprocess_text ''42 cats'' = ''cats''" by code_simp
  show "preprocess_text ''The Dog's 42 bones'' = ''the dog bones''" by code_simp
next
  fix ts assume "regex_tokens text ts"
  then have ts: "ts = findall text" by (simp only: regex_tokens_iff)
  show "preprocess_text text = spaced (normalized_tokens ts)"
    unfolding ts normalized_tokens_findall join_spaced[symmetric]
    by (rule preprocess_text_tokens)
  show "split_space (preprocess_text text)
            = (if normalized_tokens ts = [] then [[]] else normalized_tokens ts)"
    unfolding ts normalized_tokens_findall
    using split_space_preprocess[of "text"] kept_tokens_empty_iff[of "text"]
    by (simp only:)
qed

theorem preprocess_text_refines_spec_witness:
  "regex_tokens ''The Dog's 42 bones'' [''The'', ''Dog's'', ''42'', ''bones'']
   \<and> normalized_tokens [''The'', ''Dog's'', ''42'', ''bones''] = [''the'', ''dog'', ''bones'']
   \<and> spaced [''the'', ''dog'', ''bones''] = ''the dog bones''
   \<and> preprocess_text ''The Dog's 42 bones'' = ''the dog bones''
   \<and> split_space (preprocess_text ''The Dog's 42 bones'') = [''the'', ''dog'', ''bones'']"
proof -
  have f: "findall ''The Dog's 42 bones'' = [''The'', ''Dog's'', ''42'', ''bones'']" by code_simp
  have r: "regex_tokens ''The Dog's 42 bones'' [''The'', ''Dog's'', ''42'', ''bones'']"
    by (simp only: regex_tokens_iff f)
  have t: "normalized_tokens [''The'', ''Dog's'', ''42'', ''bones''] = [''the'', ''dog'', ''bones'']"
    by (simp add: normalized_tokens_def drop_possessive_def all_digits_def digit_characters_def
          lowercase_def letter_cases_def)
  have j: "spaced [''the'', ''dog'', ''bones''] = ''the dog bones''" by simp
  have "preprocess_text ''The Dog's 42 bones''
          = spaced (normalized_tokens [''The'', ''Dog's'', ''42'', ''bones''])
        \<and> split_space (preprocess_text ''The Dog's 42 bones'')
          = (if normalized_tokens [''The'', ''Dog's'', ''42'', ''bones''] = [] then [[]]
             else normalized_tokens [''The'', ''Dog's'', ''42'', ''bones''])"
    using preprocess_text_refines_spec[of "''The Dog's 42 bones''", THEN conjunct2, THEN conjunct1,
            THEN spec, of "[''The'', ''Dog's'', ''42'', ''bones'']"] r
    by (rule mp)
  then show ?thesis using r t j by simp
qed

text \<open>
  \<^bold>\<open>C7.\<close> For any two lists of words, both tables of normalised frequencies are built
  without a division by zero; every word of the union has a positive frequency in each group
  it occurs in, so the denominator of its score is positive; and the table of scores is
  built, with an entry for exactly the words of the union.
\<close>

theorem score_denominator_positive:
  "\<exists>counter_1 counter_2 scores.
      normalize_by_size (Counter group_1_words) (length group_1_words) (remdups group_1_words) Map.empty
        = Inr counter_1
    \<and> normalize_by_size (Counter group_2_words) (length group_2_words) (remdups group_2_words) Map.empty
        = Inr counter_2
    \<and> (\<forall>w\<in>set group_1_words \<union> set group_2_words.
          0 < defaultdict_get counter_1 w + defaultdict_get counter_2 w
        \<and> (w \<in> set group_1_words \<longrightarrow> 0 < defaultdict_get counter_1 w)
        \<and> (w \<in> set group_2_words \<longrightarrow> 0 < defaultdict_get counter_2 w))
    \<and> compute_word_scores group_1_words group_2_words = Inr scores
    \<and> dom scores = set group_1_words \<union> set group_2_words"
proof -
  let ?c1 = "\<lambda>w. if w \<in> set group_1_words then Some (frequency group_1_words w) else None"
  let ?c2 = "\<lambda>w. if w \<in> set group_2_words then Some (frequency group_2_words w) else None"
  have g: "defaultdict_get ?c1 = frequency group_1_words" "defaultdict_get ?c2 = frequency group_2_words"
    by (rule ext, rule defaultdict_get_frequency)+
  have "\<forall>w\<in>set group_1_words \<union> set group_2_words.
          0 < defaultdict_get ?c1 w + defaultdict_get ?c2 w
        \<and> (w \<in> set group_1_words \<longrightarrow> 0 < defaultdict_get ?c1 w)
        \<and> (w \<in> set group_2_words \<longrightarrow> 0 < defaultdict_get ?c2 w)"
    unfolding g using denominator_pos[of _ group_1_words group_2_words]
      frequency_pos_iff[of group_1_words] frequency_pos_iff[of group_2_words] by blast
  moreover have "dom (score_table group_1_words group_2_words) = set group_1_words \<union> set group_2_words"
    by (auto simp: score_table_def dom_def)
  ultimately have "normalize_by_size (Counter group_1_words) (length group_1_words) (remdups group_1_words) Map.empty
        = Inr ?c1
    \<and> normalize_by_size (Counter group_2_words) (length group_2_words) (remdups group_2_words) Map.empty
        = Inr ?c2
    \<and> (\<forall>w\<in>set group_1_words \<union> set group_2_words.
          0 < defaultdict_get ?c1 w + defaultdict_get ?c2 w
        \<and> (w \<in> set group_1_words \<longrightarrow> 0 < defaultdict_get ?c1 w)
        \<and> (w \<in> set group_2_words \<longrightarrow> 0 < defaultdict_get ?c2 w))
    \<and> compute_word_scores group_1_words group_2_words = Inr (score_table group_1_words group_2_words)
    \<and> dom (score_table group_1_words group_2_words) = set group_1_words \<union> set group_2_words"
    using normalize_by_size_words[of group_1_words] normalize_by_size_words[of group_2_words]
          compute_word_scores_eq[of group_1_words group_2_words]
    by (intro conjI)
  then show ?thesis by (intro exI)
qed

theorem score_denominator_positive_witness:
  "''hello'' \<in> set [''hello''] \<union> set [''world'', ''world'']
   \<and> compute_word_scores [''hello''] [''world'', ''world''] \<noteq> Inl ZeroDivisionError"
proof -
  obtain scores where "compute_word_scores [''hello''] [''world'', ''world''] = Inr scores"
    using score_denominator_positive[of "[''hello'']" "[''world'', ''world'']"] by (elim exE conjE)
  then show ?thesis by simp
qed

text \<open>
  \<^bold>\<open>C8.\<close> Let the thresholds and colours pass validation. For a word whose score is at most
  1 some threshold is at least the score, the colouring function does not raise
  \<open>InvalidScore\<close>, and it returns one of the colours.
\<close>

theorem invalid_score_unreachable:
  assumes "validate_input thresholds colors = Inr ()"
      and "scores word = Some score" and "score \<le> 1"
  shows "(\<exists>t\<in>set thresholds. score \<le> t)
   \<and> create_choose_color_func scores thresholds colors word \<noteq> Inl InvalidScore
   \<and> (\<exists>c\<in>set colors. create_choose_color_func scores thresholds colors word = Inr c)"
proof -
  from assms(1) have v: "sorted thresholds" "thresholds \<noteq> []" "last thresholds = 1"
      "length thresholds = length colors"
    by (simp_all add: validate_input_iff)
  have "\<exists>t\<in>set thresholds. score \<le> t" using v assms(3) threshold_reaches_iff by blast
  moreover obtain i where i: "i < length thresholds"
      "create_choose_color_func scores thresholds colors word = Inr (colors ! i)"
    using choose_color_entry(1)[where scores = scores and word = word, OF assms] by blast
  moreover have "colors ! i \<in> set colors" using i(1) v(4) by simp
  ultimately show ?thesis by auto
qed

theorem invalid_score_unreachable_witness:
  "validate_input [1 / 2, 1] [''blue'', ''red''] = Inr ()
   \<and> [''hello'' \<mapsto> 1] ''hello'' = Some (1::rat) \<and> (1::rat) \<le> 1
   \<and> create_choose_color_func [''hello'' \<mapsto> 1] [1 / 2, 1] [''blue'', ''red''] ''hello''
       \<noteq> Inl InvalidScore"
proof -
  have s: "[''hello'' \<mapsto> 1] ''hello'' = Some (1::rat)" by simp
  show ?thesis
    using invalid_score_unreachable[where scores = "[''hello'' \<mapsto> 1]" and word = "''hello''", OF example_valid s]
      example_valid s by simp
qed

text \<open>
  \<^bold>\<open>C9.\<close> When both groups are given the same text, validation and scoring raise nothing and every token of the
  shared vocabulary is scored exactly one half.
\<close>

theorem identical_corpora_score_half:
  assumes "validate_input thresholds colors = Inr ()"
  shows "\<exists>r. generateTwoGroupWordCloud corpus corpus thresholds colors = Inr r
     \<and> dom (word_scores r) = set (split_space (preprocess_text corpus))
     \<and> (\<forall>w\<in>set (split_space (preprocess_text corpus)). word_scores r w = Some (1 / 2))"
proof -
  let ?ws = "split_space (preprocess_text corpus)"
  obtain r where r: "generateTwoGroupWordCloud corpus corpus thresholds colors = Inr r"
      and ws: "word_scores r = score_table ?ws ?ws"
    using generate_eq[OF assms, of corpus corpus] by simp
  have "word_scores r w = Some (1 / 2)" if "w \<in> set ?ws" for w
  proof -
    have "0 < frequency ?ws w" using that by (simp add: frequency_pos_iff)
    then have "frequency ?ws w / (frequency ?ws w + frequency ?ws w) = 1 / 2" by simp
    then show ?thesis using that by (simp add: ws score_table_def)
  qed
  then show ?thesis using r ws dom_score_table[of ?ws ?ws] by auto
qed

theorem identical_corpora_score_half_witness:
  "validate_input DEFAULT_THRESHOLDS DEFAULT_COLORS = Inr ()
   \<and> set (split_space (preprocess_text ''cat cat dog'')) = {''cat'', ''dog''}
   \<and> score_of (generateTwoGroupWordCloud ''cat cat dog'' ''cat cat dog'' DEFAULT_THRESHOLDS DEFAULT_COLORS) ''cat''
       = Some (1 / 2)
   \<and> score_of (generateTwoGroupWordCloud ''cat cat dog'' ''cat cat dog'' DEFAULT_THRESHOLDS DEFAULT_COLORS) ''dog''
       = Some (1 / 2)"
proof -
  have v: "set (split_space (preprocess_text ''cat cat dog'')) = {''cat'', ''dog''}"
    by (simp add: pre_cat_cat_dog)
  obtain r where "generateTwoGroupWordCloud ''cat cat dog'' ''cat cat dog'' DEFAULT_THRESHOLDS DEFAULT_COLORS = Inr r"
    and "\<forall>w\<in>set (split_space (preprocess_text ''cat cat dog'')). word_scores r w = Some (1 / 2)"
    using identical_corpora_score_half[OF default_valid, of "''cat cat dog''"] by blast
  then show ?thesis using default_valid v by (simp add: score_of_def)
qed

text \<open>
  \<^bold>\<open>C10.\<close> When the text of a group normalises to the empty string, its list of words is the
  single empty word, whose normalised frequency in that group is 1; scoring raises nothing, and the
  empty word has an entry in the table of scores: for an empty first group one half when the
  second group is empty as well and 1 otherwise, for an empty second group one half or 0.
\<close>

theorem empty_text_scored:
  assumes "validate_input thresholds colors = Inr ()"
  shows "(preprocess_text group_1_text = [] \<longrightarrow>
            split_space (preprocess_text group_1_text) = [[]]
          \<and> (\<exists>counter_1. normalize_by_size (Counter [[]]) (length [[]::string]) (remdups [[]]) Map.empty = Inr counter_1
                \<and> counter_1 [] = Some 1)
          \<and> (\<exists>r. generateTwoGroupWordCloud group_1_text group_2_text thresholds colors = Inr r
                \<and> [] \<in> dom (word_scores r)
                \<and> word_scores r [] = Some (if preprocess_text group_2_text = [] then 1 / 2 else 1)))
       \<and> (preprocess_text group_2_text = [] \<longrightarrow>
            split_space (preprocess_text group_2_text) = [[]]
          \<and> (\<exists>r. generateTwoGroupWordCloud group_1_text group_2_text thresholds colors = Inr r
                \<and> [] \<in> dom (word_scores r)
                \<and> word_scores r [] = Some (if preprocess_text group_1_text = [] then 1 / 2 else 0)))"
proof -
  let ?w1 = "split_space (preprocess_text group_1_text)"
  let ?w2 = "split_space (preprocess_text group_2_text)"
  obtain r where r: "generateTwoGroupWordCloud group_1_text group_2_text thresholds colors = Inr r"
      and ws: "word_scores r = score_table ?w1 ?w2"
    using generate_eq[OF assms, of group_1_text group_2_text] by simp
  have one: "frequency [[]] [] = 1" by (simp add: frequency_def)
  have c1: "\<exists>counter_1. normalize_by_size (Counter [[]]) (length [[]::string]) (remdups [[]]) Map.empty = Inr counter_1
                \<and> counter_1 [] = Some 1"
    using normalize_by_size_words[of "[[]]"] one by simp
  have z1: "frequency ?w1 [] = 0" if "preprocess_text group_1_text \<noteq> []"
    using that by (simp add: frequency_zero_iff empty_word_iff)
  have z2: "frequency ?w2 [] = 0" if "preprocess_text group_2_text \<noteq> []"
    using that by (simp add: frequency_zero_iff empty_word_iff)
  have a: "word_scores r [] = Some (if preprocess_text group_2_text = [] then 1 / 2 else 1)"
    if "preprocess_text group_1_text = []"
    using that one z2 by (simp add: ws score_table_def)
  have b: "word_scores r [] = Some (if preprocess_text group_1_text = [] then 1 / 2 else 0)"
    if "preprocess_text group_2_text = []"
    using that one z1 by (simp add: ws score_table_def)
  show ?thesis using r a b c1 by (auto simp: dom_def)
qed

theorem empty_text_scored_witness:
  "validate_input DEFAULT_THRESHOLDS DEFAULT_COLORS = Inr ()
   \<and> preprocess_text ''42'' = []
   \<and> preprocess_text ''cat'' \<noteq> []
   \<and> score_of (generateTwoGroupWordCloud ''42'' ''cat'' DEFAULT_THRESHOLDS DEFAULT_COLORS) [] = Some 1
   \<and> score_of (generateTwoGroupWordCloud ''cat'' ''42'' DEFAULT_THRESHOLDS DEFAULT_COLORS) [] = Some 0"
proof -
  have c: "preprocess_text ''cat'' \<noteq> []" by code_simp
  obtain r where "generateTwoGroupWordCloud ''42'' ''cat'' DEFAULT_THRESHOLDS DEFAULT_COLORS = Inr r"
      "word_scores r [] = Some (if preprocess_text ''cat'' = [] then 1 / 2 else 1)"
    using empty_text_scored[OF default_valid, of "''42''" "''cat''"] pre_42 by blast
  then have a: "score_of (generateTwoGroupWordCloud ''42'' ''cat'' DEFAULT_THRESHOLDS DEFAULT_COLORS) [] = Some 1"
    using c by (simp add: score_of_def)
  obtain r' where "generateTwoGroupWordCloud ''cat'' ''42'' DEFAULT_THRESHOLDS DEFAULT_COLORS = Inr r'"
      "word_scores r' [] = Some (if preprocess_text ''cat'' = [] then 1 / 2 else 0)"
    using empty_text_scored[OF default_valid, of "''cat''" "''42''"] pre_42 by blast
  then have b: "score_of (generateTwoGroupWordCloud ''cat'' ''42'' DEFAULT_THRESHOLDS DEFAULT_COLORS) [] = Some 0"
    using c by (simp add: score_of_def)
  show ?thesis using default_valid pre_42 c a b by simp
qed

end
